(* ===== verification/Prelude.thy ===== *)
theory Prelude
  imports Main "HOL-Library.Multiset"
begin

text \<open>
  Shared vocabulary of the development: the exceptions that the modelled C++ code can
  raise, the state-and-exception computations in which its methods are written, the
  compositional rule set for invariants of such computations, and the list lemmas that
  several components need.
\<close>

section \<open>Exceptions\<close>

text \<open>
  One constructor per kind of failure that the sources can meet. All but
  \<open>Undefined\<close> derive from \<^verbatim>\<open>std::exception\<close> and are caught by the
  \<^verbatim>\<open>catch (const std::exception& e)\<close> blocks of the RPC handlers.
  \<open>Undefined\<close> is not an exception: it marks an execution with undefined behaviour
  (signed overflow, dereferencing \<^verbatim>\<open>end()\<close>), which no handler can catch.
\<close>

datatype exn =
    ConnectionFailed
  | UndefinedTable
  | UndefinedColumn
  | AmbiguousColumn
  | InvalidValue
  | NotNullViolation
  | UniqueViolation
  | ForeignKeyViolation
  | SequenceExhausted
  | DependentObjects
  | UserNotFound
  | NullValue
  | BadCast
  | OutOfRange
  | EntropyError
  | Undefined

section \<open>Computations with state and exceptions\<close>

type_synonym ('s, 'a) io = "'s \<Rightarrow> (exn + 'a) \<times> 's"

definition ret :: "'a \<Rightarrow> ('s, 'a) io" where
  "ret a s = (Inr a, s)"

definition raise :: "exn \<Rightarrow> ('s, 'a) io" where
  "raise e s = (Inl e, s)"

definition bind_io :: "('s, 'a) io \<Rightarrow> ('a \<Rightarrow> ('s, 'b) io) \<Rightarrow> ('s, 'b) io" where
  "bind_io m f s = (case m s of (Inl e, s') \<Rightarrow> (Inl e, s') | (Inr a, s') \<Rightarrow> f a s')"

text \<open>\<open>try_catch m h\<close> is \<^verbatim>\<open>try { m } catch (const std::exception&) { h }\<close>: the
  state changes made before the exception stay.\<close>

definition try_catch :: "('s, 'a) io \<Rightarrow> ('s, 'a) io \<Rightarrow> ('s, 'a) io" where
  "try_catch m h s = (case m s of
       (Inr a, s') \<Rightarrow> (Inr a, s')
     | (Inl e, s') \<Rightarrow> if e = Undefined then (Inl Undefined, s') else h s')"

definition lift_sum :: "exn + 'a \<Rightarrow> ('s, 'a) io" where
  "lift_sum r s = (r, s)"

named_theorems io_simps \<open>evaluation of computations\<close>

lemma ret_apply [io_simps, simp]: "ret a s = (Inr a, s)"
  by (simp add: ret_def)

lemma raise_apply [io_simps, simp]: "raise e s = (Inl e, s)"
  by (simp add: raise_def)

lemma lift_sum_apply [io_simps, simp]: "lift_sum r s = (r, s)"
  by (simp add: lift_sum_def)

lemma bind_io_Inl: "m s = (Inl e, s') \<Longrightarrow> bind_io m f s = (Inl e, s')"
  by (simp add: bind_io_def)

lemma bind_io_Inr: "m s = (Inr a, s') \<Longrightarrow> bind_io m f s = f a s'"
  by (simp add: bind_io_def)

lemma bind_io_ret [simp]: "bind_io (ret a) f = f a"
  by (rule ext) (simp add: bind_io_def)

lemma bind_io_raise [simp]: "bind_io (raise e) f = raise e"
  by (rule ext) (simp add: bind_io_def)

lemma bind_io_assoc: "bind_io (bind_io m f) g = bind_io m (\<lambda>a. bind_io (f a) g)"
  by (rule ext) (simp add: bind_io_def split: prod.splits sum.splits)

text \<open>Inversion: a sequence succeeds exactly when both parts do.\<close>

lemma bind_io_Inr_iff:
  "bind_io m f s = (Inr b, t) \<longleftrightarrow> (\<exists>a u. m s = (Inr a, u) \<and> f a u = (Inr b, t))"
  by (auto simp: bind_io_def split: prod.splits sum.splits)

lemma try_catch_Inr: "m s = (Inr a, t) \<Longrightarrow> try_catch m h s = (Inr a, t)"
  by (simp add: try_catch_def)

lemma try_catch_Inl: "m s = (Inl e, t) \<Longrightarrow> e \<noteq> Undefined \<Longrightarrow> try_catch m h s = h t"
  by (simp add: try_catch_def)

section \<open>Integers of the program\<close>

text \<open>The range of the 32-bit \<^verbatim>\<open>int\<close>.\<close>

definition int32 :: "int \<Rightarrow> bool" where
  "int32 n \<longleftrightarrow> - 2147483648 \<le> n \<and> n \<le> 2147483647"

section \<open>Invariants of computations\<close>

text \<open>
  \<open>keeps P m\<close>: from a state with \<open>P\<close>, the computation leaves a state with \<open>P\<close>,
  whether it returns or raises. Rules for the combinators are collected in
  \<open>keeps_intros\<close>, so an operation's invariant follows from those of its statements.
\<close>

definition keeps :: "('s \<Rightarrow> bool) \<Rightarrow> ('s, 'a) io \<Rightarrow> bool" where
  "keeps P m \<longleftrightarrow> (\<forall>s. P s \<longrightarrow> P (snd (m s)))"

named_theorems keeps_intros \<open>invariants of computations\<close>

lemma keepsI: "(\<And>s. P s \<Longrightarrow> P (snd (m s))) \<Longrightarrow> keeps P m"
  by (simp add: keeps_def)

lemma keepsD: "keeps P m \<Longrightarrow> P s \<Longrightarrow> P (snd (m s))"
  by (simp add: keeps_def)

lemma keeps_ret [keeps_intros]: "keeps P (ret a)"
  by (simp add: keeps_def)

lemma keeps_raise [keeps_intros]: "keeps P (raise e)"
  by (simp add: keeps_def)

lemma keeps_lift_sum [keeps_intros]: "keeps P (lift_sum r)"
  by (simp add: keeps_def)

lemma keeps_bind [keeps_intros]:
  assumes "keeps P m" and "\<And>a. keeps P (f a)"
  shows "keeps P (bind_io m f)"
proof (rule keepsI)
  fix s assume "P s"
  then have "P (snd (m s))" using assms(1) by (rule keepsD [rotated])
  then show "P (snd (bind_io m f s))"
    using keepsD [OF assms(2)] by (auto simp: bind_io_def split: prod.splits sum.splits)
qed

lemma keeps_if [keeps_intros]:
  "(b \<Longrightarrow> keeps P m) \<Longrightarrow> (\<not> b \<Longrightarrow> keeps P n) \<Longrightarrow> keeps P (if b then m else n)"
  by simp

lemma keeps_try_catch [keeps_intros]:
  assumes "keeps P m" and "keeps P h"
  shows "keeps P (try_catch m h)"
proof (rule keepsI)
  fix s assume "P s"
  then have "P (snd (m s))" using assms(1) by (rule keepsD [rotated])
  then show "P (snd (try_catch m h s))"
    using keepsD [OF assms(2)] by (auto simp: try_catch_def split: prod.splits sum.splits)
qed

lemma keeps_option [keeps_intros]:
  "(x = None \<Longrightarrow> keeps P m) \<Longrightarrow> (\<And>a. x = Some a \<Longrightarrow> keeps P (f a)) \<Longrightarrow>
   keeps P (case x of None \<Rightarrow> m | Some a \<Rightarrow> f a)"
  by (cases x) simp_all

lemma keeps_let [keeps_intros]: "(\<And>a. keeps P (f a)) \<Longrightarrow> keeps P (let a = x in f a)"
  by simp

lemma keeps_prod [keeps_intros]: "(\<And>a b. keeps P (f a b)) \<Longrightarrow> keeps P (case x of (a, b) \<Rightarrow> f a b)"
  by (cases x) simp

section \<open>Lists\<close>

lemma find_SomeD: "List.find P xs = Some x \<Longrightarrow> x \<in> set xs \<and> P x"
  by (auto simp: find_Some_iff)

text \<open>A key that identifies elements selects one of them.\<close>

lemma filter_key_single:
  assumes "distinct (filter Q (map f xs))" and "x \<in> set xs" and "Q (f x)"
  shows "filter (\<lambda>y. f y = f x) xs = [x]"
  using assms
proof (induction xs)
  case (Cons a xs)
  show ?case
  proof (cases "f a = f x")
    case True
    then have "f x \<notin> set (map f xs)" using Cons.prems(1,3) by auto
    then have ne: "\<forall>y \<in> set xs. f x \<noteq> f y" by (simp add: image_iff)
    then have "a = x" using Cons.prems(2) by auto
    moreover have "filter (\<lambda>y. f y = f x) xs = []"
      unfolding filter_empty_conv using ne by metis
    ultimately show ?thesis by simp
  next
    case False
    then have "x \<in> set xs" using Cons.prems(2) by auto
    moreover have "distinct (filter Q (map f xs))" using Cons.prems(1) by (auto split: if_splits)
    ultimately show ?thesis using False Cons.IH Cons.prems(3) by simp
  qed
qed simp

text \<open>Sorting by a key that no two elements share gives one list, whatever the order before.\<close>

lemma sort_key_unique:
  assumes "mset xs = mset ys" and "inj_on k (set xs)"
  shows "sort_key k xs = sort_key k ys"
proof (rule properties_for_sort_key [symmetric, where f = k])
  show "mset (sort_key k xs) = mset ys" using assms(1) by simp
  fix x assume "x \<in> set (sort_key k xs)"
  show "filter (\<lambda>y. k x = k y) (sort_key k xs) = filter (\<lambda>y. k x = k y) ys"
  proof -
    have x: "x \<in> set xs" using \<open>x \<in> set (sort_key k xs)\<close> by simp
    have set: "set xs = set ys" using assms(1) by (rule mset_eq_setD)
    have eq: "filter (\<lambda>y. k x = k y) zs = filter (\<lambda>y. x = y) zs" if "set zs \<subseteq> set xs" for zs
      using that x assms(2) by (intro filter_cong) (auto simp: inj_on_def)
    have "filter (\<lambda>y. x = y) zs = replicate (count (mset zs) x) x" for zs
      by (induction zs) auto
    then show ?thesis using assms(1) set by (simp add: eq)
  qed
qed simp

lemma sort_key_snoc:
  assumes "\<And>x. x \<in> set xs \<Longrightarrow> k x < k z"
  shows "sort_key k (xs @ [z]) = sort_key k xs @ [z]"
proof (rule properties_for_sort_key)
  show "sorted (map k (sort_key k xs @ [z]))"
    using assms by (auto simp: sorted_append intro: less_imp_le)
  show "filter (\<lambda>y. k x = k y) (sort_key k xs @ [z]) = filter (\<lambda>y. k x = k y) (xs @ [z])" for x
    by (simp add: sort_key_stable eq_commute [of "k x"])
qed simp

end
