(* ===== verification/Sql.thy ===== *)
theory Sql
  imports Prelude
begin

text \<open>
  The part of SQL that the statements in \<^verbatim>\<open>DB/\<close> and
  \<^verbatim>\<open>WrongthinkServiceImpl.cpp\<close> use: tables with typed columns, column constraints and
  defaults, \<^verbatim>\<open>insert\<close>, \<^verbatim>\<open>select\<close> (with inner join, where,
  order by), \<^verbatim>\<open>update\<close>, \<^verbatim>\<open>delete\<close>,
  \<^verbatim>\<open>create table if not exists\<close> and \<^verbatim>\<open>drop table if exists\<close>.
  Rows are positional, as the code reads them (\<^verbatim>\<open>row.get<int>(2)\<close>); column
  names are resolved against the tables' declared columns, so a statement that names a
  column that no table has fails in the model as it does in the database.

  What the standard leaves to the engine, and what the SOCI client library does between
  the engine and the code, are the fields of the record \<open>env\<close>: neither is under
  \<^verbatim>\<open>src/\<close>. The locale \<open>sql_engine\<close> holds the laws the code relies on.
\<close>

section \<open>Values, columns, tables\<close>

text \<open>\<^verbatim>\<open>struct tm\<close> of the C library.\<close>

record tm =
  tm_sec :: int
  tm_min :: int
  tm_hour :: int
  tm_mday :: int
  tm_mon :: int
  tm_year :: int
  tm_isdst :: int

text \<open>A boolean is the integer 0 or 1: the code binds and reads booleans as
  \<^verbatim>\<open>int\<close>.\<close>

datatype sqlval = Null | IntV int | TextV string | TimeV tm

datatype coltype = Serial | RowId | IntT | Varchar nat | TextT | BoolT | DateT

datatype coldefault = NoDefault | DefaultValue sqlval | DefaultNow int

datatype tabname =
  Users | BannedUsers | BannedIps | Communities | Channels | Messages | ControlMessages

record column =
  cname :: string
  ctype :: coltype
  not_null :: bool
  is_unique :: bool
  primary :: bool
  refs :: "tabname option"
  dflt :: coldefault

record table =
  cols :: "column list"
  rows :: "sqlval list list"
  seqno :: int

type_synonym db = "tabname \<Rightarrow> table option"

definition all_tables :: "tabname list" where
  "all_tables = [Users, BannedUsers, BannedIps, Communities, Channels, Messages, ControlMessages]"

lemma set_all_tables [simp]: "set all_tables = UNIV"
  by (auto simp: all_tables_def) (metis tabname.exhaust)

section \<open>The engine and the client library\<close>

text \<open>
  \<open>coerce\<close> is the conversion of a bound parameter to a column's type on assignment
  (\<open>None\<close>: rejected); \<open>fk_enforced\<close> says whether foreign keys are checked;
  \<open>scan\<close> is the order in which a query without \<^verbatim>\<open>order by\<close> yields its rows;
  \<open>clock n\<close> is the time, in seconds since the epoch, of the \<open>n\<close>-th statement;
  \<open>session_up n\<close> says whether opening the \<open>n\<close>-th session succeeds.
  \<open>soci_int\<close>, \<open>soci_string\<close> and \<open>soci_tm\<close> are SOCI's conversions of a fetched
  value to a C++ type; \<open>no_row_null\<close> and \<open>no_row_name\<close> say what a
  \<^verbatim>\<open>soci::row\<close> holds in its first column when the query yielded no row
  (whether its indicator is \<^verbatim>\<open>i_null\<close>, and what \<^verbatim>\<open>get<std::string>\<close>
  returns); \<open>c_mktime\<close> is \<^verbatim>\<open>mktime\<close> in the server's time zone; \<open>pb_flag\<close>
  is what a flag field of a generated protobuf message stores when an
  \<^verbatim>\<open>int\<close> is assigned to it; \<open>pick_column\<close> is the column that
  \<^verbatim>\<open>row.get<T>("name")\<close> reads when the row has several of that name.
\<close>

record env =
  coerce :: "coltype \<Rightarrow> sqlval \<Rightarrow> sqlval option"
  fk_enforced :: bool
  scan :: "sqlval list list \<Rightarrow> sqlval list list"
  clock :: "nat \<Rightarrow> int"
  session_up :: "nat \<Rightarrow> bool"
  soci_int :: "sqlval \<Rightarrow> exn + int"
  soci_string :: "sqlval \<Rightarrow> exn + string"
  soci_tm :: "sqlval \<Rightarrow> exn + tm"
  no_row_null :: bool
  no_row_name :: "exn + string"
  c_mktime :: "tm \<Rightarrow> int"
  pb_flag :: "int \<Rightarrow> int"
  pick_column :: "nat list \<Rightarrow> nat"

text \<open>Characters, not bytes, count for \<^verbatim>\<open>varchar(n)\<close>: UTF-8 continuation bytes
  are skipped.\<close>

definition utf8_length :: "string \<Rightarrow> nat" where
  "utf8_length s = length (filter (\<lambda>c. \<not> (128 \<le> (of_char c :: nat) \<and> (of_char c :: nat) < 192)) s)"

fun well_typed :: "coltype \<Rightarrow> sqlval \<Rightarrow> bool" where
  "well_typed c Null = True"
| "well_typed Serial v = (\<exists>n. v = IntV n)"
| "well_typed RowId v = (\<exists>n. v = IntV n)"
| "well_typed IntT v = (\<exists>n. v = IntV n)"
| "well_typed BoolT v = (\<exists>n. v = IntV n)"
| "well_typed (Varchar k) v = (\<exists>s. v = TextV s)"
| "well_typed TextT v = (\<exists>s. v = TextV s)"
| "well_typed DateT v = ((\<exists>n. v = IntV n) \<or> (\<exists>t. v = TimeV t))"

locale sql_engine =
  fixes E :: env
  assumes scan_mset: "mset (scan E rs) = mset rs"
    and coerce_null: "coerce E c Null = Some Null"
    and coerce_int: "int32 n \<Longrightarrow> coerce E IntT (IntV n) = Some (IntV n)"
    and coerce_bool: "b = 0 \<or> b = 1 \<Longrightarrow> coerce E BoolT (IntV b) = Some (IntV b)"
    and coerce_text: "coerce E TextT (TextV s) = Some (TextV s)"
    and coerce_varchar: "utf8_length s \<le> k \<Longrightarrow> coerce E (Varchar k) (TextV s) = Some (TextV s)"
    and coerce_typed: "well_typed c v \<Longrightarrow> coerce E c v = Some v' \<Longrightarrow> v \<noteq> Null \<Longrightarrow>
      well_typed c v' \<and> v' \<noteq> Null"
    and soci_int_IntV: "soci_int E (IntV n) = Inr n"
    and soci_string_TextV: "soci_string E (TextV s) = Inr s"
    and soci_int_Null: "soci_int E Null = Inl NullValue"
    and pb_flag_01: "b = 0 \<or> b = 1 \<Longrightarrow> pb_flag E b = b"
    and pick_column_mem: "is \<noteq> [] \<Longrightarrow> pick_column E is \<in> set is"


section \<open>Name resolution\<close>

datatype colref = Col string | QCol tabname string

type_synonym header = "(tabname \<times> string) list"
type_synonym relation = "header \<times> sqlval list list"

fun ref_matches :: "colref \<Rightarrow> tabname \<times> string \<Rightarrow> bool" where
  "ref_matches (Col n) (t, c) = (c = n)"
| "ref_matches (QCol t' n) (t, c) = (t = t' \<and> c = n)"

fun positions :: "('a \<Rightarrow> bool) \<Rightarrow> 'a list \<Rightarrow> nat list" where
  "positions p [] = []"
| "positions p (x # xs) = (if p x then 0 # map Suc (positions p xs) else map Suc (positions p xs))"

definition resolve :: "header \<Rightarrow> colref \<Rightarrow> exn + nat" where
  "resolve h r = (case positions (ref_matches r) h of
      [] \<Rightarrow> Inl UndefinedColumn
    | [i] \<Rightarrow> Inr i
    | _ \<Rightarrow> Inl AmbiguousColumn)"

type_synonym conds = "(colref \<times> sqlval) list"

fun resolve_all :: "header \<Rightarrow> conds \<Rightarrow> exn + (nat \<times> sqlval) list" where
  "resolve_all h [] = Inr []"
| "resolve_all h ((r, v) # cs) = (case resolve h r of Inl e \<Rightarrow> Inl e
     | Inr i \<Rightarrow> (case resolve_all h cs of Inl e \<Rightarrow> Inl e | Inr is \<Rightarrow> Inr ((i, v) # is)))"

text \<open>SQL equality: a comparison with null is not true.\<close>

definition sql_eq :: "sqlval \<Rightarrow> sqlval \<Rightarrow> bool" where
  "sql_eq a b \<longleftrightarrow> a \<noteq> Null \<and> b \<noteq> Null \<and> a = b"

definition row_satisfies :: "(nat \<times> sqlval) list \<Rightarrow> sqlval list \<Rightarrow> bool" where
  "row_satisfies ivs r = list_all (\<lambda>(i, v). sql_eq (r ! i) v) ivs"

section \<open>Queries\<close>

definition base :: "db \<Rightarrow> tabname \<Rightarrow> exn + relation" where
  "base d t = (case d t of None \<Rightarrow> Inl UndefinedTable
     | Some tb \<Rightarrow> Inr (map (\<lambda>c. (t, cname c)) (cols tb), rows tb))"

definition inner_join :: "relation \<Rightarrow> relation \<Rightarrow> colref \<Rightarrow> colref \<Rightarrow> exn + relation" where
  "inner_join R S a b = (let h = fst R @ fst S in
     case resolve h a of Inl e \<Rightarrow> Inl e
     | Inr i \<Rightarrow> (case resolve h b of Inl e \<Rightarrow> Inl e
     | Inr j \<Rightarrow> Inr (h, filter (\<lambda>r. sql_eq (r ! i) (r ! j)) [x @ y. x \<leftarrow> snd R, y \<leftarrow> snd S])))"

definition where_clause :: "conds \<Rightarrow> relation \<Rightarrow> exn + relation" where
  "where_clause cs R = (case resolve_all (fst R) cs of Inl e \<Rightarrow> Inl e
     | Inr ivs \<Rightarrow> Inr (fst R, filter (row_satisfies ivs) (snd R)))"

fun int_key :: "sqlval \<Rightarrow> int" where
  "int_key (IntV n) = n"
| "int_key _ = 0"

definition order_by :: "colref \<Rightarrow> relation \<Rightarrow> exn + relation" where
  "order_by c R = (case resolve (fst R) c of Inl e \<Rightarrow> Inl e
     | Inr i \<Rightarrow> Inr (fst R, sort_key (\<lambda>r. int_key (r ! i)) (snd R)))"

text \<open>The rows come in the engine's order; \<^verbatim>\<open>order by\<close> sorts them afterwards.\<close>

definition scanned :: "env \<Rightarrow> relation \<Rightarrow> relation" where
  "scanned E R = (fst R, scan E (snd R))"

definition bind_sum :: "exn + 'a \<Rightarrow> ('a \<Rightarrow> exn + 'b) \<Rightarrow> exn + 'b" where
  "bind_sum r f = (case r of Inl e \<Rightarrow> Inl e | Inr a \<Rightarrow> f a)"

lemma bind_sum_Inr_iff:
  "bind_sum r f = Inr b \<longleftrightarrow> (\<exists>a. r = Inr a \<and> f a = Inr b)"
  by (cases r) (simp_all add: bind_sum_def)

lemma bind_sum_simps [simp]:
  "bind_sum (Inl e) f = Inl e" "bind_sum (Inr a) f = f a"
  by (simp_all add: bind_sum_def)

definition select_from :: "env \<Rightarrow> tabname \<Rightarrow> conds \<Rightarrow> db \<Rightarrow> exn + relation" where
  "select_from E t cs d =
     bind_sum (base d t) (\<lambda>R. bind_sum (where_clause cs R) (\<lambda>S. Inr (scanned E S)))"

definition select_join ::
  "env \<Rightarrow> tabname \<Rightarrow> tabname \<Rightarrow> colref \<Rightarrow> colref \<Rightarrow> conds \<Rightarrow> db \<Rightarrow> exn + relation" where
  "select_join E t u a b cs d =
     bind_sum (base d t) (\<lambda>R. bind_sum (base d u) (\<lambda>S.
     bind_sum (inner_join R S a b) (\<lambda>J.
     bind_sum (where_clause cs J) (\<lambda>K. Inr (scanned E K)))))"

section \<open>Constraints\<close>

definition key_col :: "column \<Rightarrow> bool" where
  "key_col c \<longleftrightarrow> is_unique c \<or> primary c"

definition needs_value :: "column \<Rightarrow> bool" where
  "needs_value c \<longleftrightarrow> not_null c \<or> primary c"

definition row_fits :: "column list \<Rightarrow> sqlval list \<Rightarrow> bool" where
  "row_fits cs r = list_all2 (\<lambda>c v. needs_value c \<longrightarrow> v \<noteq> Null) cs r"

definition column_values :: "table \<Rightarrow> nat \<Rightarrow> sqlval list" where
  "column_values tb i = map (\<lambda>r. r ! i) (rows tb)"

definition unique_ok :: "table \<Rightarrow> bool" where
  "unique_ok tb = list_all (\<lambda>i. key_col (cols tb ! i) \<longrightarrow>
     distinct (filter (\<lambda>v. v \<noteq> Null) (column_values tb i))) [0..<length (cols tb)]"

text \<open>A reference without a column name refers to the primary key.\<close>

definition primary_values :: "db \<Rightarrow> tabname \<Rightarrow> sqlval list" where
  "primary_values d t = (case d t of None \<Rightarrow> []
     | Some tb \<Rightarrow> (case positions primary (cols tb) of [] \<Rightarrow> [] | i # _ \<Rightarrow> column_values tb i))"

definition refs_ok :: "db \<Rightarrow> table \<Rightarrow> bool" where
  "refs_ok d tb = list_all (\<lambda>i. case refs (cols tb ! i) of None \<Rightarrow> True
     | Some t' \<Rightarrow> list_all (\<lambda>v. v = Null \<or> v \<in> set (primary_values d t')) (column_values tb i))
     [0..<length (cols tb)]"

definition violation :: "env \<Rightarrow> db \<Rightarrow> table \<Rightarrow> exn option" where
  "violation E d tb =
     (if \<not> list_all (row_fits (cols tb)) (rows tb) then Some NotNullViolation
      else if \<not> unique_ok tb then Some UniqueViolation
      else if fk_enforced E \<and> \<not> refs_ok d tb then Some ForeignKeyViolation
      else None)"

text \<open>The first constraint violation of a whole database, if there is one.\<close>

definition db_violation :: "env \<Rightarrow> db \<Rightarrow> exn option" where
  "db_violation E d = (case List.map_filter
       (\<lambda>t. case d t of None \<Rightarrow> None | Some tb \<Rightarrow> violation E d tb) all_tables of
     [] \<Rightarrow> None | e # _ \<Rightarrow> Some e)"

definition db_ok :: "env \<Rightarrow> db \<Rightarrow> bool" where
  "db_ok E d \<longleftrightarrow> db_violation E d = None"


section \<open>Statements\<close>

text \<open>The values that the code's statements write: a parameter or a constant, or the
  current time in seconds plus an offset.\<close>

datatype expr = Val sqlval | NowPlus int

fun eval_expr :: "int \<Rightarrow> expr \<Rightarrow> sqlval" where
  "eval_expr now (Val v) = v"
| "eval_expr now (NowPlus k) = IntV (now + k)"

type_synonym assigns = "(string \<times> expr) list"

definition find_column :: "column list \<Rightarrow> string \<Rightarrow> nat option" where
  "find_column cs n = (case positions (\<lambda>c. cname c = n) cs of [] \<Rightarrow> None | i # _ \<Rightarrow> Some i)"

fun assign_all :: "env \<Rightarrow> int \<Rightarrow> column list \<Rightarrow> assigns \<Rightarrow> exn + (string \<times> sqlval) list" where
  "assign_all E now cs [] = Inr []"
| "assign_all E now cs ((n, e) # as) = (case find_column cs n of None \<Rightarrow> Inl UndefinedColumn
     | Some i \<Rightarrow> (case coerce E (ctype (cs ! i)) (eval_expr now e) of None \<Rightarrow> Inl InvalidValue
     | Some v \<Rightarrow> bind_sum (assign_all E now cs as) (\<lambda>bs. Inr ((n, v) # bs))))"

text \<open>
  Keys: a \<^verbatim>\<open>serial\<close> column draws from a sequence that never goes back, an
  \<^verbatim>\<open>integer primary key\<close> takes one more than the largest key in the table.
\<close>

definition auto_col :: "column \<Rightarrow> bool" where
  "auto_col c \<longleftrightarrow> ctype c = Serial \<or> ctype c = RowId"

definition next_id :: "table \<Rightarrow> nat \<Rightarrow> int" where
  "next_id tb i = (if ctype (cols tb ! i) = Serial then seqno tb + 1
     else 1 + fold max (map int_key (column_values tb i)) 0)"

definition default_value :: "int \<Rightarrow> column \<Rightarrow> sqlval" where
  "default_value now c = (case dflt c of NoDefault \<Rightarrow> Null | DefaultValue v \<Rightarrow> v
     | DefaultNow k \<Rightarrow> IntV (now + k))"

definition default_for :: "env \<Rightarrow> int \<Rightarrow> table \<Rightarrow> nat \<Rightarrow> exn + sqlval" where
  "default_for E now tb i = (let c = cols tb ! i in
     if auto_col c
     then (if int32 (next_id tb i) then Inr (IntV (next_id tb i)) else Inl SequenceExhausted)
     else (case coerce E (ctype c) (default_value now c)
           of None \<Rightarrow> Inl InvalidValue | Some v \<Rightarrow> Inr v))"

definition cell :: "env \<Rightarrow> int \<Rightarrow> table \<Rightarrow> (string \<times> sqlval) list \<Rightarrow> nat \<Rightarrow> exn + sqlval" where
  "cell E now tb bs i = (case map_of bs (cname (cols tb ! i)) of
     Some v \<Rightarrow> Inr v | None \<Rightarrow> default_for E now tb i)"

fun build_row :: "env \<Rightarrow> int \<Rightarrow> table \<Rightarrow> (string \<times> sqlval) list \<Rightarrow> nat list \<Rightarrow> exn + sqlval list" where
  "build_row E now tb bs [] = Inr []"
| "build_row E now tb bs (i # is) =
     bind_sum (cell E now tb bs i) (\<lambda>v. bind_sum (build_row E now tb bs is) (\<lambda>vs. Inr (v # vs)))"

text \<open>A rejected row still consumes its sequence number.\<close>

definition bump :: "table \<Rightarrow> table" where
  "bump tb = tb\<lparr>seqno := seqno tb + 1\<rparr>"

definition insert_into :: "env \<Rightarrow> tabname \<Rightarrow> assigns \<Rightarrow> int \<Rightarrow> db \<Rightarrow> (exn + unit) \<times> db" where
  "insert_into E t as now d = (case d t of None \<Rightarrow> (Inl UndefinedTable, d)
     | Some tb \<Rightarrow> (case assign_all E now (cols tb) as of Inl e \<Rightarrow> (Inl e, d)
     | Inr bs \<Rightarrow> (case build_row E now tb bs [0..<length (cols tb)] of
         Inl e \<Rightarrow> (Inl e, d(t \<mapsto> bump tb))
       | Inr r \<Rightarrow> (let d' = d(t \<mapsto> (bump tb)\<lparr>rows := rows tb @ [r]\<rparr>) in
           (case db_violation E d' of
              Some e \<Rightarrow> (Inl e, d(t \<mapsto> bump tb))
            | None \<Rightarrow> (Inr (), d'))))))"

definition update_set ::
  "env \<Rightarrow> tabname \<Rightarrow> string \<Rightarrow> expr \<Rightarrow> conds \<Rightarrow> int \<Rightarrow> db \<Rightarrow> (exn + unit) \<times> db" where
  "update_set E t n e cs now d = (case d t of None \<Rightarrow> (Inl UndefinedTable, d)
     | Some tb \<Rightarrow> (case assign_all E now (cols tb) [(n, e)] of Inl x \<Rightarrow> (Inl x, d)
     | Inr bs \<Rightarrow> (case resolve_all (map (\<lambda>c. (t, cname c)) (cols tb)) cs of Inl x \<Rightarrow> (Inl x, d)
     | Inr ivs \<Rightarrow> (let i = the (find_column (cols tb) n); v = snd (hd bs);
                      upd = (\<lambda>r. if row_satisfies ivs r then r[i := v] else r);
                      d' = d(t \<mapsto> tb\<lparr>rows := map upd (rows tb)\<rparr>) in
           (case db_violation E d' of Some x \<Rightarrow> (Inl x, d) | None \<Rightarrow> (Inr (), d'))))))"

definition delete_from ::
  "env \<Rightarrow> tabname \<Rightarrow> conds \<Rightarrow> int \<Rightarrow> db \<Rightarrow> (exn + unit) \<times> db" where
  "delete_from E t cs now d = (case d t of None \<Rightarrow> (Inl UndefinedTable, d)
     | Some tb \<Rightarrow> (case resolve_all (map (\<lambda>c. (t, cname c)) (cols tb)) cs of Inl x \<Rightarrow> (Inl x, d)
     | Inr ivs \<Rightarrow> (let d' = d(t \<mapsto> tb\<lparr>rows := filter (\<lambda>r. \<not> row_satisfies ivs r) (rows tb)\<rparr>) in
           (case db_violation E d' of Some x \<Rightarrow> (Inl x, d) | None \<Rightarrow> (Inr (), d')))))"

definition references :: "column list \<Rightarrow> tabname list" where
  "references cs = List.map_filter refs cs"

definition create_table ::
  "env \<Rightarrow> tabname \<Rightarrow> column list \<Rightarrow> int \<Rightarrow> db \<Rightarrow> (exn + unit) \<times> db" where
  "create_table E t cs now d = (case d t of
       Some tb \<Rightarrow> (Inr (), d)
     | None \<Rightarrow> if fk_enforced E \<and> list_ex (\<lambda>u. u \<noteq> t \<and> d u = None) (references cs)
               then (Inl UndefinedTable, d)
               else (Inr (), d(t \<mapsto> \<lparr>cols = cs, rows = [], seqno = 0\<rparr>)))"

definition drop_table :: "env \<Rightarrow> tabname \<Rightarrow> int \<Rightarrow> db \<Rightarrow> (exn + unit) \<times> db" where
  "drop_table E t now d =
     (if fk_enforced E \<and> d t \<noteq> None \<and> list_ex (\<lambda>u. u \<noteq> t \<and> (case d u of None \<Rightarrow> False
           | Some tb \<Rightarrow> t \<in> set (references (cols tb)))) all_tables
      then (Inl DependentObjects, d)
      else (Inr (), d(t := None)))"

section \<open>Execution\<close>

text \<open>The state behind the code: the tables, how many sessions have been opened and how
  many statements (or clock readings) have run.\<close>

record world =
  tabs :: db
  sessions :: nat
  ticks :: nat

definition exec :: "env \<Rightarrow> (int \<Rightarrow> db \<Rightarrow> (exn + 'a) \<times> db) \<Rightarrow> (world, 'a) io" where
  "exec E st w = (let (r, d) = st (clock E (ticks w)) (tabs w)
     in (r, w\<lparr>tabs := d, ticks := Suc (ticks w)\<rparr>))"

definition query :: "env \<Rightarrow> (db \<Rightarrow> exn + 'a) \<Rightarrow> (world, 'a) io" where
  "query E q w = (q (tabs w), w\<lparr>ticks := Suc (ticks w)\<rparr>)"

definition read_clock :: "env \<Rightarrow> (world, int) io" where
  "read_clock E w = (Inr (clock E (ticks w)), w\<lparr>ticks := Suc (ticks w)\<rparr>)"

text \<open>\<^verbatim>\<open>sql.got_data()\<close> after a query, and the value of an
  \<^verbatim>\<open>into(x)\<close> target (unchanged without a row).\<close>

definition got_data :: "relation \<Rightarrow> bool" where
  "got_data R \<longleftrightarrow> snd R \<noteq> []"

definition into_int :: "env \<Rightarrow> relation \<Rightarrow> string \<Rightarrow> int \<Rightarrow> exn + int" where
  "into_int E R c x = bind_sum (resolve (fst R) (Col c)) (\<lambda>i.
     case snd R of [] \<Rightarrow> Inr x | r # _ \<Rightarrow> soci_int E (r ! i))"

definition into_tm :: "env \<Rightarrow> relation \<Rightarrow> string \<Rightarrow> exn + tm option" where
  "into_tm E R c = bind_sum (resolve (fst R) (Col c)) (\<lambda>i.
     case snd R of [] \<Rightarrow> Inr None | r # _ \<Rightarrow> bind_sum (soci_tm E (r ! i)) (\<lambda>t. Inr (Some t)))"


section \<open>Laws of the statements\<close>

lemma positions_conv: "positions p xs = filter (\<lambda>i. p (xs ! i)) [0..<length xs]"
proof (induction xs)
  case Nil
  then show ?case by simp
next
  case (Cons x xs)
  have "[0..<length (x # xs)] = 0 # map Suc [0..<length xs]"
    by (simp add: upt_conv_Cons map_Suc_upt del: upt_Suc)
  then show ?case
    by (simp add: Cons.IH filter_map o_def del: upt_Suc)
qed

lemma map_filter_Nil_iff: "List.map_filter f xs = [] \<longleftrightarrow> (\<forall>x \<in> set xs. f x = None)"
  by (induction xs) (auto simp: List.map_filter_simps split: option.splits)

lemma db_ok_iff:
  "db_ok E d \<longleftrightarrow> (\<forall>t tb. d t = Some tb \<longrightarrow> violation E d tb = None)"
proof -
  have "db_ok E d \<longleftrightarrow> List.map_filter
      (\<lambda>t. case d t of None \<Rightarrow> None | Some tb \<Rightarrow> violation E d tb) all_tables = []"
    by (auto simp: db_ok_def db_violation_def split: list.splits)
  then show ?thesis
    by (auto simp: map_filter_Nil_iff split: option.splits)
qed

lemma violation_None_iff:
  "violation E d tb = None \<longleftrightarrow>
     (\<forall>r \<in> set (rows tb). row_fits (cols tb) r) \<and> unique_ok tb \<and> (fk_enforced E \<longrightarrow> refs_ok d tb)"
  by (auto simp: violation_def list_all_iff)

text \<open>The columns and rows of a table, which is all that the constraints look at.\<close>

definition contents :: "db \<Rightarrow> tabname \<Rightarrow> (column list \<times> sqlval list list) option" where
  "contents d t = map_option (\<lambda>tb. (cols tb, rows tb)) (d t)"

lemma primary_values_contents:
  "primary_values d t = (case contents d t of None \<Rightarrow> []
     | Some (cs, rs) \<Rightarrow> (case positions primary cs of [] \<Rightarrow> [] | i # _ \<Rightarrow> map (\<lambda>r. r ! i) rs))"
  by (simp add: primary_values_def contents_def column_values_def split: option.splits list.splits)

lemma primary_values_cong:
  "contents d' t = contents d t \<Longrightarrow> primary_values d' t = primary_values d t"
  by (simp add: primary_values_contents)

lemma refs_ok_cong:
  assumes "\<And>u. primary_values d' u = primary_values d u"
    and "cols tb' = cols tb" and "rows tb' = rows tb"
  shows "refs_ok d' tb' = refs_ok d tb"
proof -
  have pv: "primary_values d' = primary_values d"
    using assms(1) by (rule ext)
  have cv: "column_values tb' = column_values tb"
    by (rule ext) (simp only: column_values_def assms(3))
  show ?thesis
    unfolding refs_ok_def pv cv assms(2) by (rule refl)
qed

text \<open>Only columns and rows count for the constraints, not the sequence number.\<close>

lemma violation_cong:
  assumes "\<And>u. primary_values d' u = primary_values d u"
    and "cols tb' = cols tb" and "rows tb' = rows tb"
  shows "violation E d' tb' = violation E d tb"
  using refs_ok_cong [OF assms] assms(2,3)
  by (simp add: violation_def unique_ok_def column_values_def)

lemma bump_simps [simp]:
  "cols (bump tb) = cols tb" "rows (bump tb) = rows tb" "seqno (bump tb) = seqno tb + 1"
  by (simp_all add: bump_def)

lemma db_ok_bump:
  assumes ok: "db_ok E d" and t: "d t = Some tb"
  shows "db_ok E (d(t \<mapsto> bump tb))"
  unfolding db_ok_iff
proof (intro allI impI)
  fix u x assume u: "(d(t \<mapsto> bump tb)) u = Some x"
  obtain y where y: "d u = Some y" "cols x = cols y" "rows x = rows y"
    using u t by (cases "u = t") auto
  have "primary_values (d(t \<mapsto> bump tb)) v = primary_values d v" for v
    by (rule primary_values_cong) (use t in \<open>simp add: contents_def\<close>)
  then have "violation E (d(t \<mapsto> bump tb)) x = violation E d y"
    using y(2,3) by (rule violation_cong)
  then show "violation E (d(t \<mapsto> bump tb)) x = None"
    using ok y(1) by (simp add: db_ok_iff)
qed

lemma insert_into_db_ok:
  assumes "db_ok E d"
  shows "db_ok E (snd (insert_into E t as now d))"
proof (cases "d t")
  case None
  with assms show ?thesis by (simp add: insert_into_def)
next
  case (Some tb)
  with assms have "db_ok E (d(t \<mapsto> bump tb))" by (rule db_ok_bump)
  with assms Some show ?thesis
    by (auto simp: insert_into_def Let_def db_ok_def split: option.splits sum.splits)
qed

lemma update_set_db_ok: "db_ok E d \<Longrightarrow> db_ok E (snd (update_set E t n e cs now d))"
  by (auto simp: update_set_def Let_def db_ok_def split: option.splits sum.splits)

lemma delete_from_db_ok: "db_ok E d \<Longrightarrow> db_ok E (snd (delete_from E t cs now d))"
  by (auto simp: delete_from_def Let_def db_ok_def split: option.splits sum.splits)

lemma keeps_exec:
  "(\<And>now d. P d \<Longrightarrow> P (snd (st now d))) \<Longrightarrow> keeps (\<lambda>w. P (tabs w)) (exec E st)"
  by (rule keepsI) (simp add: exec_def split_beta Let_def)

lemma keeps_query [keeps_intros]: "keeps (\<lambda>w. P (tabs w)) (query E q)"
  by (rule keepsI) (simp add: query_def)

lemma keeps_read_clock [keeps_intros]: "keeps (\<lambda>w. P (tabs w)) (read_clock E)"
  by (rule keepsI) (simp add: read_clock_def)

end
