(* ===== verification/Schema.thy ===== *)
theory Schema
  imports Sql
begin

text \<open>
  The tables of the server: the column lists that \<^verbatim>\<open>DBPostgres::validate\<close> and
  \<^verbatim>\<open>SQLiteDB::validate\<close> declare, the two methods themselves, and
  \<^verbatim>\<open>DBPostgres::clear\<close>, which \<^verbatim>\<open>SQLiteDB\<close> inherits. The order of
  the statements matters: a table is created after the tables it references and dropped
  after the tables that reference it.
\<close>

section \<open>Column declarations\<close>

definition plain :: "string \<Rightarrow> coltype \<Rightarrow> column" where
  "plain n ty = \<lparr>cname = n, ctype = ty, not_null = False, is_unique = False,
     primary = False, refs = None, dflt = NoDefault\<rparr>"

fun pg_schema :: "tabname \<Rightarrow> column list" where
  "pg_schema Users =
    [(plain ''user_id'' Serial)\<lparr>primary := True\<rparr>,
     (plain ''uname'' (Varchar 50))\<lparr>is_unique := True, not_null := True\<rparr>,
     (plain ''token'' (Varchar 50))\<lparr>not_null := True\<rparr>,
     (plain ''admin'' BoolT)\<lparr>dflt := DefaultValue (IntV 0)\<rparr>]"
| "pg_schema BannedUsers =
    [(plain ''entry_id'' Serial)\<lparr>primary := True\<rparr>,
     (plain ''user_id'' IntT)\<lparr>refs := Some Users\<rparr>,
     (plain ''expire'' IntT)\<lparr>not_null := True\<rparr>]"
| "pg_schema BannedIps =
    [(plain ''entry_id'' Serial)\<lparr>primary := True\<rparr>,
     (plain ''ip'' (Varchar 50))\<lparr>is_unique := True, not_null := True\<rparr>,
     (plain ''expire'' IntT)\<lparr>not_null := True\<rparr>]"
| "pg_schema Communities =
    [(plain ''community_id'' Serial)\<lparr>primary := True\<rparr>,
     (plain ''name'' (Varchar 100))\<lparr>is_unique := True, not_null := True\<rparr>,
     (plain ''admin'' IntT)\<lparr>refs := Some Users\<rparr>,
     (plain ''public'' BoolT)\<lparr>dflt := DefaultValue (IntV 1)\<rparr>]"
| "pg_schema Channels =
    [(plain ''channel_id'' Serial)\<lparr>primary := True\<rparr>,
     (plain ''name'' (Varchar 100))\<lparr>is_unique := True, not_null := True\<rparr>,
     (plain ''community'' IntT)\<lparr>refs := Some Communities\<rparr>,
     (plain ''admin'' IntT)\<lparr>refs := Some Users\<rparr>,
     (plain ''allow_anon'' BoolT)\<lparr>dflt := DefaultValue (IntV 1)\<rparr>]"
| "pg_schema Messages =
    [(plain ''msg_id'' Serial)\<lparr>primary := True\<rparr>,
     (plain ''user_id'' IntT)\<lparr>refs := Some Users\<rparr>,
     (plain ''channel'' IntT)\<lparr>refs := Some Channels\<rparr>,
     plain ''thread_id'' IntT,
     (plain ''thread_child'' BoolT)\<lparr>not_null := True, dflt := DefaultValue (IntV 0)\<rparr>,
     (plain ''edited'' BoolT)\<lparr>dflt := DefaultValue (IntV 0)\<rparr>,
     (plain ''mtext'' TextT)\<lparr>not_null := True\<rparr>,
     (plain ''mdate'' IntT)\<lparr>not_null := True, dflt := DefaultNow 0\<rparr>]"
| "pg_schema ControlMessages =
    [(plain ''msg_id'' Serial)\<lparr>primary := True\<rparr>,
     (plain ''user_id'' IntT)\<lparr>refs := Some Users\<rparr>,
     (plain ''channel'' IntT)\<lparr>refs := Some Channels\<rparr>,
     plain ''type'' (Varchar 50),
     (plain ''mtext'' TextT)\<lparr>not_null := True\<rparr>,
     (plain ''mdate'' IntT)\<lparr>not_null := True, dflt := DefaultNow 0\<rparr>]"

text \<open>Three days, in seconds, is the offset of \<^verbatim>\<open>strftime('%s', 'now', '+3 days')\<close>.\<close>

fun sqlite_schema :: "tabname \<Rightarrow> column list" where
  "sqlite_schema Users =
    [(plain ''user_id'' RowId)\<lparr>primary := True\<rparr>,
     (plain ''uname'' (Varchar 50))\<lparr>is_unique := True, not_null := True\<rparr>,
     (plain ''token'' (Varchar 50))\<lparr>not_null := True\<rparr>,
     (plain ''admin'' BoolT)\<lparr>dflt := DefaultValue (IntV 0)\<rparr>]"
| "sqlite_schema BannedUsers =
    [(plain ''entry_id'' RowId)\<lparr>primary := True\<rparr>,
     (plain ''user_id'' IntT)\<lparr>refs := Some Users\<rparr>,
     (plain ''expire'' DateT)\<lparr>not_null := True, dflt := DefaultNow 259200\<rparr>]"
| "sqlite_schema BannedIps =
    [(plain ''entry_id'' RowId)\<lparr>primary := True\<rparr>,
     (plain ''ip'' (Varchar 50))\<lparr>is_unique := True, not_null := True\<rparr>,
     (plain ''expire'' DateT)\<lparr>not_null := True\<rparr>]"
| "sqlite_schema Communities =
    [(plain ''community_id'' RowId)\<lparr>primary := True\<rparr>,
     (plain ''name'' (Varchar 100))\<lparr>is_unique := True, not_null := True\<rparr>,
     (plain ''admin'' IntT)\<lparr>refs := Some Users\<rparr>,
     (plain ''public'' BoolT)\<lparr>dflt := DefaultValue (IntV 1)\<rparr>]"
| "sqlite_schema Channels =
    [(plain ''channel_id'' RowId)\<lparr>primary := True\<rparr>,
     (plain ''name'' (Varchar 100))\<lparr>is_unique := True, not_null := True\<rparr>,
     (plain ''community'' IntT)\<lparr>refs := Some Communities\<rparr>,
     (plain ''admin'' IntT)\<lparr>refs := Some Users\<rparr>,
     (plain ''allow_anon'' BoolT)\<lparr>dflt := DefaultValue (IntV 1)\<rparr>]"
| "sqlite_schema Messages =
    [(plain ''msg_id'' RowId)\<lparr>primary := True\<rparr>,
     (plain ''user_id'' IntT)\<lparr>refs := Some Users\<rparr>,
     (plain ''channel'' IntT)\<lparr>refs := Some Channels\<rparr>,
     plain ''thread_id'' IntT,
     (plain ''thread_child'' BoolT)\<lparr>not_null := True, dflt := DefaultValue (IntV 0)\<rparr>,
     (plain ''edited'' BoolT)\<lparr>dflt := DefaultValue (IntV 0)\<rparr>,
     (plain ''mtext'' TextT)\<lparr>not_null := True\<rparr>,
     (plain ''mdate'' IntT)\<lparr>not_null := True, dflt := DefaultNow 0\<rparr>]"
| "sqlite_schema ControlMessages =
    [(plain ''msg_id'' RowId)\<lparr>primary := True\<rparr>,
     (plain ''user_id'' IntT)\<lparr>refs := Some Users\<rparr>,
     (plain ''channel'' IntT)\<lparr>refs := Some Channels\<rparr>,
     plain ''type'' (Varchar 50),
     (plain ''mtext'' TextT)\<lparr>not_null := True\<rparr>,
     (plain ''mdate'' IntT)\<lparr>not_null := True, dflt := DefaultNow 0\<rparr>]"

section \<open>Opening a session, creating and dropping the tables\<close>

text \<open>\<^verbatim>\<open>DBInterface::getSociSession\<close> connects anew at every call.\<close>

definition getSociSession :: "env \<Rightarrow> (world, unit) io" where
  "getSociSession E w =
     (if session_up E (sessions w) then Inr () else Inl ConnectionFailed,
      w\<lparr>sessions := Suc (sessions w)\<rparr>)"

fun run_all :: "('s, unit) io list \<Rightarrow> ('s, unit) io" where
  "run_all [] = ret ()"
| "run_all (m # ms) = bind_io m (\<lambda>_. run_all ms)"

definition pg_validate :: "env \<Rightarrow> (world, unit) io" where
  "pg_validate E = bind_io (getSociSession E) (\<lambda>_. run_all
     [exec E (create_table E Users (pg_schema Users)),
      exec E (create_table E BannedUsers (pg_schema BannedUsers)),
      exec E (create_table E BannedIps (pg_schema BannedIps)),
      exec E (create_table E Communities (pg_schema Communities)),
      exec E (create_table E Channels (pg_schema Channels)),
      exec E (create_table E Messages (pg_schema Messages)),
      exec E (create_table E ControlMessages (pg_schema ControlMessages))])"

definition sqlite_validate :: "env \<Rightarrow> (world, unit) io" where
  "sqlite_validate E = bind_io (getSociSession E) (\<lambda>_. run_all
     [exec E (create_table E Users (sqlite_schema Users)),
      exec E (create_table E BannedUsers (sqlite_schema BannedUsers)),
      exec E (create_table E BannedIps (sqlite_schema BannedIps)),
      exec E (create_table E Communities (sqlite_schema Communities)),
      exec E (create_table E Channels (sqlite_schema Channels)),
      exec E (create_table E Messages (sqlite_schema Messages)),
      exec E (create_table E ControlMessages (sqlite_schema ControlMessages))])"

definition db_clear :: "env \<Rightarrow> (world, unit) io" where
  "db_clear E = bind_io (getSociSession E) (\<lambda>_. run_all
     [exec E (drop_table E Messages),
      exec E (drop_table E ControlMessages),
      exec E (drop_table E Channels),
      exec E (drop_table E Communities),
      exec E (drop_table E BannedUsers),
      exec E (drop_table E BannedIps),
      exec E (drop_table E Users)])"


section \<open>Facts about the schemas\<close>

text \<open>Both back ends declare the same columns in the same order under the same names, so
  the positional reads of the service code mean the same in both.\<close>

definition conforms :: "(tabname \<Rightarrow> column list) \<Rightarrow> db \<Rightarrow> bool" where
  "conforms sch d \<longleftrightarrow> (\<forall>t tb. d t = Some tb \<longrightarrow> cols tb = sch t)"

definition installed :: "(tabname \<Rightarrow> column list) \<Rightarrow> db \<Rightarrow> bool" where
  "installed sch d \<longleftrightarrow> (\<forall>t. \<exists>tb. d t = Some tb \<and> cols tb = sch t)"

lemma installed_conforms: "installed sch d \<Longrightarrow> conforms sch d"
  unfolding installed_def conforms_def by (metis option.inject)

lemma installedD:
  assumes "installed sch d"
  obtains tb where "d t = Some tb" and "cols tb = sch t"
  using assms unfolding installed_def by blast

text \<open>What running the \<^verbatim>\<open>create table if not exists\<close> statements does to the tables.\<close>

definition created :: "(tabname \<Rightarrow> column list) \<Rightarrow> tabname set \<Rightarrow> db \<Rightarrow> db" where
  "created sch S d = (\<lambda>t. if t \<in> S \<and> d t = None then Some \<lparr>cols = sch t, rows = [], seqno = 0\<rparr> else d t)"

text \<open>\<open>refs_closed sch seen ts\<close>: creating \<open>ts\<close> in this order, each table references
  itself, tables in \<open>seen\<close>, or tables created before it.\<close>

fun refs_closed :: "(tabname \<Rightarrow> column list) \<Rightarrow> tabname set \<Rightarrow> tabname list \<Rightarrow> bool" where
  "refs_closed sch seen [] = True"
| "refs_closed sch seen (t # ts) =
     (set (references (sch t)) \<subseteq> insert t seen \<and> refs_closed sch (insert t seen) ts)"

lemma create_table_ok:
  assumes "set (references (sch t)) \<subseteq> insert t seen" and "\<forall>u \<in> seen. d u \<noteq> None"
  shows "create_table E t (sch t) now d = (Inr (), created sch {t} d)"
proof (cases "d t")
  case None
  have "\<not> list_ex (\<lambda>u. u \<noteq> t \<and> d u = None) (references (sch t))"
    using assms by (auto simp: list_ex_iff)
  moreover have "d(t \<mapsto> \<lparr>cols = sch t, rows = [], seqno = 0\<rparr>) = created sch {t} d"
    using None by (auto simp: created_def)
  ultimately show ?thesis using None by (simp add: create_table_def)
next
  case (Some tb)
  then have "created sch {t} d = d" by (simp add: created_def fun_eq_iff)
  with Some show ?thesis by (simp add: create_table_def)
qed

lemma exec_result:
  "st (clock E (ticks w)) (tabs w) = (r, d) \<Longrightarrow>
   exec E st w = (r, w\<lparr>tabs := d, ticks := Suc (ticks w)\<rparr>)"
  by (simp add: exec_def)

lemma created_created: "created sch T (created sch S d) = created sch (S \<union> T) d"
  by (auto simp: created_def fun_eq_iff)

lemma run_creates:
  assumes "refs_closed sch seen ts" and "\<forall>u \<in> seen. tabs w u \<noteq> None"
  shows "run_all (map (\<lambda>t. exec E (create_table E t (sch t))) ts) w =
    (Inr (), w\<lparr>tabs := created sch (set ts) (tabs w), ticks := ticks w + length ts\<rparr>)"
  using assms
proof (induction ts arbitrary: seen w)
  case Nil
  then show ?case by (simp add: created_def)
next
  case (Cons t ts)
  let ?w = "w\<lparr>tabs := created sch {t} (tabs w), ticks := Suc (ticks w)\<rparr>"
  have st: "create_table E t (sch t) (clock E (ticks w)) (tabs w) = (Inr (), created sch {t} (tabs w))"
    by (rule create_table_ok) (use Cons.prems in auto)
  have "\<forall>u \<in> insert t seen. tabs ?w u \<noteq> None"
    using Cons.prems(2) by (auto simp: created_def)
  moreover have "refs_closed sch (insert t seen) ts"
    using Cons.prems(1) by simp
  ultimately have "run_all (map (\<lambda>t. exec E (create_table E t (sch t))) ts) ?w =
      (Inr (), ?w\<lparr>tabs := created sch (set ts) (tabs ?w), ticks := ticks ?w + length ts\<rparr>)"
    using Cons.IH by blast
  moreover have "exec E (create_table E t (sch t)) w = (Inr (), ?w)"
    by (rule exec_result) (fact st)
  ultimately show ?case
    by (simp add: bind_io_def created_created)
qed

text \<open>Dropping: \<open>drop_closed sch gone ts\<close> when every table that references the next one is
  gone already.\<close>

fun drop_closed :: "(tabname \<Rightarrow> column list) \<Rightarrow> tabname set \<Rightarrow> tabname list \<Rightarrow> bool" where
  "drop_closed sch gone [] = True"
| "drop_closed sch gone (t # ts) =
     (list_all (\<lambda>u. t \<in> set (references (sch u)) \<longrightarrow> u = t \<or> u \<in> gone) all_tables
      \<and> drop_closed sch (insert t gone) ts)"

definition dropped :: "tabname set \<Rightarrow> db \<Rightarrow> db" where
  "dropped S d = (\<lambda>t. if t \<in> S then None else d t)"

lemma dropped_dropped: "dropped T (dropped S d) = dropped (S \<union> T) d"
  by (auto simp: dropped_def fun_eq_iff)

lemma dropped_singleton: "d(t := None) = dropped {t} d"
  by (auto simp: dropped_def fun_eq_iff)

lemma run_drops:
  assumes "drop_closed sch gone ts" and "conforms sch (tabs w)" and "\<forall>u \<in> gone. tabs w u = None"
  shows "run_all (map (\<lambda>t. exec E (drop_table E t)) ts) w =
    (Inr (), w\<lparr>tabs := dropped (set ts) (tabs w), ticks := ticks w + length ts\<rparr>)"
  using assms
proof (induction ts arbitrary: gone w)
  case Nil
  then show ?case by (simp add: dropped_def)
next
  case (Cons t ts)
  let ?w = "w\<lparr>tabs := dropped {t} (tabs w), ticks := Suc (ticks w)\<rparr>"
  have "\<not> list_ex (\<lambda>u. u \<noteq> t \<and> (case tabs w u of None \<Rightarrow> False
      | Some tb \<Rightarrow> t \<in> set (references (cols tb)))) all_tables"
    using Cons.prems by (auto simp: list_ex_iff list_all_iff conforms_def split: option.splits)
  then have st: "drop_table E t (clock E (ticks w)) (tabs w) = (Inr (), dropped {t} (tabs w))"
    by (simp add: drop_table_def dropped_singleton)
  have "run_all (map (\<lambda>t. exec E (drop_table E t)) ts) ?w =
      (Inr (), ?w\<lparr>tabs := dropped (set ts) (tabs ?w), ticks := ticks ?w + length ts\<rparr>)"
    by (rule Cons.IH [of "insert t gone"])
       (use Cons.prems in \<open>auto simp: conforms_def dropped_def split: if_splits\<close>)
  moreover have "exec E (drop_table E t) w = (Inr (), ?w)"
    by (rule exec_result) (fact st)
  ultimately show ?case
    by (simp add: bind_io_def dropped_dropped)
qed

lemmas map_filter_simps = List.map_filter_simps

lemma pg_refs_closed: "refs_closed pg_schema {} all_tables"
  by (simp add: all_tables_def references_def map_filter_simps plain_def)

lemma sqlite_refs_closed: "refs_closed sqlite_schema {} all_tables"
  by (simp add: all_tables_def references_def map_filter_simps plain_def)

definition drop_order :: "tabname list" where
  "drop_order = [Messages, ControlMessages, Channels, Communities, BannedUsers, BannedIps, Users]"

lemma set_drop_order [simp]: "set drop_order = UNIV"
  by (auto simp: drop_order_def) (metis tabname.exhaust)

lemma pg_drop_closed: "drop_closed pg_schema {} drop_order"
  by (simp add: drop_order_def all_tables_def references_def map_filter_simps plain_def)

lemma sqlite_drop_closed: "drop_closed sqlite_schema {} drop_order"
  by (simp add: drop_order_def all_tables_def references_def map_filter_simps plain_def)

lemma session_ok:
  "session_up E (sessions w) \<Longrightarrow> getSociSession E w = (Inr (), w\<lparr>sessions := Suc (sessions w)\<rparr>)"
  by (simp add: getSociSession_def)

lemma session_fails:
  "\<not> session_up E (sessions w) \<Longrightarrow>
   getSociSession E w = (Inl ConnectionFailed, w\<lparr>sessions := Suc (sessions w)\<rparr>)"
  by (simp add: getSociSession_def)

lemma keeps_session [keeps_intros]: "keeps (\<lambda>w. P (tabs w)) (getSociSession E)"
  by (rule keepsI) (simp add: getSociSession_def)

lemma pg_validate_conv:
  "pg_validate E = bind_io (getSociSession E) (\<lambda>_. run_all
     (map (\<lambda>t. exec E (create_table E t (pg_schema t))) all_tables))"
  by (simp only: pg_validate_def all_tables_def list.map)

lemma sqlite_validate_conv:
  "sqlite_validate E = bind_io (getSociSession E) (\<lambda>_. run_all
     (map (\<lambda>t. exec E (create_table E t (sqlite_schema t))) all_tables))"
  by (simp only: sqlite_validate_def all_tables_def list.map)

lemma db_clear_conv:
  "db_clear E = bind_io (getSociSession E) (\<lambda>_. run_all
     (map (\<lambda>t. exec E (drop_table E t)) drop_order))"
  by (simp only: db_clear_def drop_order_def list.map)

lemma validate_runs:
  assumes "session_up E (sessions w)" and "refs_closed sch {} all_tables"
  shows "bind_io (getSociSession E) (\<lambda>_. run_all
     (map (\<lambda>t. exec E (create_table E t (sch t))) all_tables)) w =
    (Inr (), w\<lparr>sessions := Suc (sessions w), tabs := created sch UNIV (tabs w), ticks := ticks w + 7\<rparr>)"
  using run_creates [OF assms(2), of "w\<lparr>sessions := Suc (sessions w)\<rparr>" E]
  by (simp add: bind_io_def session_ok [OF assms(1)])
     (simp add: all_tables_def)

lemma clear_runs:
  assumes "session_up E (sessions w)" and "drop_closed sch {} drop_order" and "conforms sch (tabs w)"
  shows "db_clear E w =
    (Inr (), w\<lparr>sessions := Suc (sessions w), tabs := (\<lambda>_. None), ticks := ticks w + 7\<rparr>)"
  using run_drops [OF assms(2), of "w\<lparr>sessions := Suc (sessions w)\<rparr>" E] assms(3)
  by (simp add: db_clear_conv bind_io_def session_ok [OF assms(1)])
     (simp add: drop_order_def dropped_def)

end
