(* ===== verification/Database.thy ===== *)
theory Database
  imports Schema
begin

text \<open>
  The database layer: the abstract class \<^verbatim>\<open>DBInterface\<close> as a record of methods
  (its virtual function table), the methods of \<^verbatim>\<open>DBPostgres\<close>, and
  \<^verbatim>\<open>SQLiteDB\<close>, which inherits them and overrides \<^verbatim>\<open>validate\<close> and
  \<^verbatim>\<open>banUser\<close>. Each method opens its own session and runs its statements one by one,
  outside any transaction.
\<close>

section \<open>The interface\<close>

text \<open>\<open>createUser\<close> has an in-out parameter \<^verbatim>\<open>int& admin\<close>: it returns the user id
  and the new value of \<open>admin\<close>. The row sets are given with the session the caller opened;
  \<open>getChannelRow\<close> yields the row's one value, or \<open>None\<close> when the query had no row.\<close>

record db_interface =
  validate :: "(world, unit) io"
  clear :: "(world, unit) io"
  isUserValid :: "string \<Rightarrow> string \<Rightarrow> (world, bool) io"
  isUserAdmin :: "string \<Rightarrow> (world, bool) io"
  isUserModerator :: "string \<Rightarrow> int \<Rightarrow> (world, bool) io"
  isUserBanned :: "string \<Rightarrow> string \<Rightarrow> (world, bool) io"
  isIPBanned :: "string \<Rightarrow> (world, bool) io"
  banUser :: "string \<Rightarrow> int \<Rightarrow> (world, unit) io"
  createUser :: "string \<Rightarrow> string \<Rightarrow> int \<Rightarrow> (world, int \<times> int) io"
  createChannel :: "string \<Rightarrow> int \<Rightarrow> int \<Rightarrow> int \<Rightarrow> (world, int) io"
  createCommunity :: "string \<Rightarrow> int \<Rightarrow> int \<Rightarrow> (world, int) io"
  getCommunityRowset :: "(world, relation) io"
  getCommunityChannelsRowset :: "int \<Rightarrow> (world, relation) io"
  getChannelMessages :: "int \<Rightarrow> (world, relation) io"
  getChannelRow :: "int \<Rightarrow> (world, sqlval option) io"

section \<open>DBPostgres\<close>

definition pg_isUserValid :: "env \<Rightarrow> string \<Rightarrow> string \<Rightarrow> (world, bool) io" where
  "pg_isUserValid E uname token =
     bind_io (getSociSession E) (\<lambda>_.
     bind_io (query E (select_from E Users [(Col ''uname'', TextV uname), (Col ''token'', TextV token)]))
       (\<lambda>R. ret (got_data R)))"

definition pg_isUserAdmin :: "env \<Rightarrow> string \<Rightarrow> (world, bool) io" where
  "pg_isUserAdmin E uname =
     bind_io (getSociSession E) (\<lambda>_.
     bind_io (query E (select_from E Users [(Col ''uname'', TextV uname), (Col ''admin'', IntV 1)]))
       (\<lambda>R. ret (got_data R)))"

text \<open>
  The two string literals of this query are concatenated without a space, so that its join
  condition reads \<^verbatim>\<open>channels.admin_id = users.user_idwhere\<close>.
\<close>

definition pg_isUserModerator :: "env \<Rightarrow> string \<Rightarrow> int \<Rightarrow> (world, bool) io" where
  "pg_isUserModerator E uname channel_id =
     bind_io (getSociSession E) (\<lambda>_.
     bind_io (query E (select_join E Channels Users
         (QCol Channels ''admin_id'') (QCol Users (''user_id'' @ ''where''))
         [(QCol Channels ''channel_id'', IntV channel_id), (QCol Users ''uname'', TextV uname)]))
       (\<lambda>R. ret (got_data R)))"

definition pg_isIPBanned :: "env \<Rightarrow> string \<Rightarrow> (world, bool) io" where
  "pg_isIPBanned E ip =
     bind_io (getSociSession E) (\<lambda>_.
     bind_io (query E (\<lambda>d. bind_sum (select_from E BannedIps [(Col ''ip'', TextV ip)] d)
                             (\<lambda>R. into_tm E R ''expire'')))
       (\<lambda>date. case date of
          None \<Rightarrow> ret False
        | Some date \<Rightarrow>
            bind_io (read_clock E) (\<lambda>tc.
            if tc > c_mktime E date
            then bind_io (exec E (delete_from E BannedIps [(Col ''ip'', TextV ip)])) (\<lambda>_. ret False)
            else ret True)))"

definition pg_isUserBanned :: "env \<Rightarrow> string \<Rightarrow> string \<Rightarrow> (world, bool) io" where
  "pg_isUserBanned E uname ip =
     bind_io (getSociSession E) (\<lambda>_.
     bind_io (query E (\<lambda>d. bind_sum (select_join E BannedUsers Users
                 (QCol Users ''user_id'') (QCol BannedUsers ''user_id'') [(Col ''uname'', TextV uname)] d)
               (\<lambda>R. into_tm E R ''expire'')))
       (\<lambda>date. case date of
          None \<Rightarrow> ret False
        | Some date \<Rightarrow>
            bind_io (read_clock E) (\<lambda>tc.
            if tc > c_mktime E date
            then bind_io (exec E (delete_from E BannedUsers [(Col ''uname'', TextV uname)])) (\<lambda>_. ret False)
            else bind_io (pg_isIPBanned E ip) (\<lambda>b.
              if \<not> b
              then bind_io (exec E (insert_into E BannedIps
                     [(''ip'', Val (TextV ip)), (''expire'', Val (TimeV date))])) (\<lambda>_. ret True)
              else ret True))))"

text \<open>\<^verbatim>\<open>int\<close> multiplication: overflow is undefined behaviour.\<close>

definition c_mul :: "int \<Rightarrow> int \<Rightarrow> exn + int" where
  "c_mul a b = (if int32 (a * b) then Inr (a * b) else Inl Undefined)"

text \<open>\<^verbatim>\<open>days = days * 24 * 60 * 60 * 1000;\<close>\<close>

definition ban_span :: "int \<Rightarrow> exn + int" where
  "ban_span days = bind_sum (c_mul days 24) (\<lambda>h. bind_sum (c_mul h 60) (\<lambda>m.
     bind_sum (c_mul m 60) (\<lambda>s. c_mul s 1000)))"

definition pg_banUser :: "env \<Rightarrow> string \<Rightarrow> int \<Rightarrow> (world, unit) io" where
  "pg_banUser E uname days =
     bind_io (getSociSession E) (\<lambda>_.
     bind_io (lift_sum (ban_span days)) (\<lambda>days.
     bind_io (query E (select_from E Users [(Col ''uname'', TextV uname)])) (\<lambda>R.
     if got_data R
     then bind_io (lift_sum (into_int E R ''user_id'' 0)) (\<lambda>uid.
          bind_io (query E (select_from E BannedUsers [(Col ''user_id'', IntV uid)])) (\<lambda>B.
          if got_data B
          then exec E (update_set E BannedUsers ''expire'' (NowPlus days) [(Col ''user_id'', IntV uid)])
          else exec E (insert_into E BannedUsers
                 [(''user_id'', Val (IntV uid)), (''expire'', NowPlus days)])))
     else raise UserNotFound)))"

definition pg_createUser :: "env \<Rightarrow> string \<Rightarrow> string \<Rightarrow> int \<Rightarrow> (world, int \<times> int) io" where
  "pg_createUser E uname token admin =
     bind_io (getSociSession E) (\<lambda>_.
     bind_io (query E (select_from E Users [(Col ''admin'', IntV 1)])) (\<lambda>R.
     bind_io (lift_sum (soci_int E (IntV (int (length (snd R)))))) (\<lambda>adminct.
     let admin = (if adminct = 0 then 1 else admin) in
     bind_io (exec E (insert_into E Users
        [(''uname'', Val (TextV uname)), (''token'', Val (TextV token)), (''admin'', Val (IntV admin))])) (\<lambda>_.
     bind_io (query E (\<lambda>d. bind_sum (select_from E Users [(Col ''uname'', TextV uname)] d)
                             (\<lambda>R. into_int E R ''user_id'' 0))) (\<lambda>uid.
     ret (uid, admin))))))"

definition pg_createChannel :: "env \<Rightarrow> string \<Rightarrow> int \<Rightarrow> int \<Rightarrow> int \<Rightarrow> (world, int) io" where
  "pg_createChannel E name community admin_id anonymous =
     bind_io (getSociSession E) (\<lambda>_.
     bind_io (exec E (insert_into E Channels
        [(''name'', Val (TextV name)), (''community'', Val (IntV community)),
         (''admin'', Val (IntV admin_id)), (''allow_anon'', Val (IntV anonymous))])) (\<lambda>_.
     query E (\<lambda>d. bind_sum (select_from E Channels [(Col ''name'', TextV name)] d)
                    (\<lambda>R. into_int E R ''channel_id'' 0))))"

text \<open>Here the result variable has no initial value: without a row, returning it is
  undefined.\<close>

definition pg_createCommunity :: "env \<Rightarrow> string \<Rightarrow> int \<Rightarrow> int \<Rightarrow> (world, int) io" where
  "pg_createCommunity E name admin pub =
     bind_io (getSociSession E) (\<lambda>_.
     bind_io (exec E (insert_into E Communities
        [(''name'', Val (TextV name)), (''admin'', Val (IntV admin)), (''public'', Val (IntV pub))])) (\<lambda>_.
     bind_io (query E (select_from E Communities [(Col ''name'', TextV name)])) (\<lambda>R.
     if got_data R then lift_sum (into_int E R ''community_id'' 0) else raise Undefined)))"

definition pg_getCommunityRowset :: "env \<Rightarrow> (world, relation) io" where
  "pg_getCommunityRowset E = query E (select_join E Communities Users
     (QCol Communities ''admin'') (QCol Users ''user_id'') [])"

definition pg_getCommunityChannelsRowset :: "env \<Rightarrow> int \<Rightarrow> (world, relation) io" where
  "pg_getCommunityChannelsRowset E community_id = query E (\<lambda>d. bind_sum
     (select_join E Channels Users (QCol Channels ''admin'') (QCol Users ''user_id'')
        [(Col ''community'', IntV community_id)] d)
     (order_by (QCol Channels ''channel_id'')))"

definition pg_getChannelMessages :: "env \<Rightarrow> int \<Rightarrow> (world, relation) io" where
  "pg_getChannelMessages E channel_id = query E (\<lambda>d. bind_sum
     (select_join E Messages Users (QCol Messages ''user_id'') (QCol Users ''user_id'')
        [(QCol Messages ''channel'', IntV channel_id)] d)
     (order_by (QCol Messages ''msg_id'')))"

definition pg_getChannelRow :: "env \<Rightarrow> int \<Rightarrow> (world, sqlval option) io" where
  "pg_getChannelRow E channel_id = query E (\<lambda>d.
     bind_sum (select_from E Channels [(Col ''channel_id'', IntV channel_id)] d) (\<lambda>R.
     bind_sum (resolve (fst R) (Col ''name'')) (\<lambda>i.
     Inr (case snd R of [] \<Rightarrow> None | r # _ \<Rightarrow> Some (r ! i)))))"

definition pg_db :: "env \<Rightarrow> db_interface" where
  "pg_db E = \<lparr>
     validate = pg_validate E,
     clear = db_clear E,
     isUserValid = pg_isUserValid E,
     isUserAdmin = pg_isUserAdmin E,
     isUserModerator = pg_isUserModerator E,
     isUserBanned = pg_isUserBanned E,
     isIPBanned = pg_isIPBanned E,
     banUser = pg_banUser E,
     createUser = pg_createUser E,
     createChannel = pg_createChannel E,
     createCommunity = pg_createCommunity E,
     getCommunityRowset = pg_getCommunityRowset E,
     getCommunityChannelsRowset = pg_getCommunityChannelsRowset E,
     getChannelMessages = pg_getChannelMessages E,
     getChannelRow = pg_getChannelRow E\<rparr>"

section \<open>SQLiteDB\<close>

definition sqlite_banUser :: "env \<Rightarrow> string \<Rightarrow> int \<Rightarrow> (world, unit) io" where
  "sqlite_banUser E uname days =
     bind_io (getSociSession E) (\<lambda>_.
     bind_io (lift_sum (ban_span days)) (\<lambda>days.
     bind_io (query E (select_from E Users [(Col ''uname'', TextV uname)])) (\<lambda>R.
     if got_data R
     then bind_io (lift_sum (into_int E R ''user_id'' 0)) (\<lambda>uid.
          bind_io (query E (select_from E BannedUsers [(Col ''user_id'', IntV uid)])) (\<lambda>B.
          if got_data B
          then exec E (update_set E BannedUsers ''expire'' (NowPlus days) [(Col ''user_id'', IntV uid)])
          else exec E (insert_into E BannedUsers
                 [(''user_id'', Val (IntV uid)), (''expire'', NowPlus days)])))
     else raise UserNotFound)))"

definition sqlite_db :: "env \<Rightarrow> db_interface" where
  "sqlite_db E = (pg_db E)\<lparr>validate := sqlite_validate E, banUser := sqlite_banUser E\<rparr>"

end
