(* ===== verification/DbInvariant.thy ===== *)
theory DbInvariant
  imports Database
begin

text \<open>
  The invariant of the stored data and its preservation by every method of the database
  layer: the tables of the back end's schema are installed, no constraint is violated, every
  stored value has its column's type, and every generated key is positive and not above the
  table's sequence number. The laws of a back end (engine plus schema) are the locale
  \<open>backend\<close>; the two engines the program knows are its interpretations.
\<close>

section \<open>Soundness of a table\<close>

definition row_sound :: "table \<Rightarrow> sqlval list \<Rightarrow> bool" where
  "row_sound tb r \<longleftrightarrow>
     list_all2 (\<lambda>c v. well_typed (ctype c) v) (cols tb) r \<and>
     (\<forall>i < length (cols tb). auto_col (cols tb ! i) \<longrightarrow>
        (\<exists>n. r ! i = IntV n \<and> 1 \<le> n \<and> n \<le> seqno tb))"

definition table_sound :: "table \<Rightarrow> bool" where
  "table_sound tb \<longleftrightarrow> 0 \<le> seqno tb \<and> (\<forall>r \<in> set (rows tb). row_sound tb r)"

definition sound :: "db \<Rightarrow> bool" where
  "sound d \<longleftrightarrow> (\<forall>t tb. d t = Some tb \<longrightarrow> table_sound tb)"

definition server_inv :: "env \<Rightarrow> (tabname \<Rightarrow> column list) \<Rightarrow> db \<Rightarrow> bool" where
  "server_inv E sch d \<longleftrightarrow> installed sch d \<and> db_ok E d \<and> sound d"

lemma server_inv_table:
  assumes "server_inv E sch d" and "d t = Some tb"
  shows "cols tb = sch t" and "table_sound tb" and "violation E d tb = None"
proof -
  have "conforms sch d"
    using assms(1) installed_conforms by (simp add: server_inv_def)
  then show "cols tb = sch t" using assms(2) by (simp add: conforms_def)
  show "table_sound tb" "violation E d tb = None"
    using assms by (auto simp: server_inv_def sound_def db_ok_iff)
qed

lemma table_sound_bump: "table_sound tb \<Longrightarrow> table_sound (bump tb)"
  unfolding table_sound_def row_sound_def by (auto intro: order_trans) (metis order_trans less_imp_le zless_add1_eq order_refl)

section \<open>Back ends\<close>

locale backend = sql_engine +
  fixes sch :: "tabname \<Rightarrow> column list"
  assumes backend_schema:
    "sch = pg_schema \<and> (\<forall>c v v'. coerce E c v = Some v' \<longrightarrow> well_typed c v') \<or> sch = sqlite_schema"

text \<open>A value written by a statement suits its column: it has the column's type, or the engine
  rejects values of other types.\<close>

definition suits :: "env \<Rightarrow> coltype \<Rightarrow> sqlval \<Rightarrow> bool" where
  "suits E c v \<longleftrightarrow> well_typed c v \<or> (\<forall>v'. coerce E c v = Some v' \<longrightarrow> well_typed c v')"

definition assigns_suit :: "env \<Rightarrow> column list \<Rightarrow> assigns \<Rightarrow> bool" where
  "assigns_suit E cs as \<longleftrightarrow> (\<forall>(n, e) \<in> set as. \<forall>i now. find_column cs n = Some i \<longrightarrow>
     \<not> auto_col (cs ! i) \<and> suits E (ctype (cs ! i)) (eval_expr now e))"

lemma find_column_Some:
  "find_column cs n = Some i \<Longrightarrow> i < length cs \<and> cname (cs ! i) = n"
proof -
  assume "find_column cs n = Some i"
  then have "i \<in> set (positions (\<lambda>c. cname c = n) cs)"
    by (auto simp: find_column_def split: list.splits)
  then show ?thesis by (simp add: positions_conv)
qed

text \<open>What a successful insert did.\<close>

lemma insert_into_Inr:
  assumes "insert_into E t as now d = (Inr (), d')"
  obtains tb bs r where "d t = Some tb" and "assign_all E now (cols tb) as = Inr bs"
    and "build_row E now tb bs [0..<length (cols tb)] = Inr r"
    and "d' = d(t \<mapsto> (bump tb)\<lparr>rows := rows tb @ [r]\<rparr>)" and "db_ok E d'"
  using assms
  by (auto simp: insert_into_def Let_def db_ok_def split: option.splits sum.splits)

lemma insert_into_Inl:
  assumes "insert_into E t as now d = (Inl e, d')"
  shows "d' = d \<or> (\<exists>tb. d t = Some tb \<and> d' = d(t \<mapsto> bump tb))"
  using assms
  by (auto simp: insert_into_def Let_def split: option.splits sum.splits)

lemma build_row_Inr:
  "build_row E now tb bs is = Inr r \<longleftrightarrow> list_all2 (\<lambda>i v. cell E now tb bs i = Inr v) is r"
  by (induction "is" arbitrary: r) (auto simp: bind_sum_Inr_iff list_all2_Cons1)

lemma build_row_nth:
  assumes "build_row E now tb bs [0..<n] = Inr r"
  shows "length r = n" and "i < n \<Longrightarrow> cell E now tb bs i = Inr (r ! i)"
  using assms by (auto simp: build_row_Inr list_all2_conv_all_nth)

lemma assign_all_Inr:
  assumes "assign_all E now cs as = Inr bs" and "map_of bs n = Some v"
  obtains e i where "(n, e) \<in> set as" and "find_column cs n = Some i"
    and "coerce E (ctype (cs ! i)) (eval_expr now e) = Some v"
  using assms
proof (induction as arbitrary: bs thesis)
  case Nil
  then show ?case by simp
next
  case (Cons a as)
  obtain m e where a: "a = (m, e)" by (cases a)
  from Cons.prems(2) a obtain i v' bs' where i: "find_column cs m = Some i"
    and v': "coerce E (ctype (cs ! i)) (eval_expr now e) = Some v'"
    and bs': "assign_all E now cs as = Inr bs'" and bs: "bs = (m, v') # bs'"
    by (auto simp: bind_sum_Inr_iff split: option.splits)
  show ?case
  proof (cases "m = n")
    case True
    with Cons.prems(3) bs have "v' = v" by simp
    with True i v' a show ?thesis using Cons.prems(1) by auto
  next
    case False
    with Cons.prems(3) bs have "map_of bs' n = Some v" by simp
    then show ?thesis
      using Cons.IH [OF _ bs'] Cons.prems(1) by (metis a list.set_intros(2))
  qed
qed


section \<open>The schemas are well formed\<close>

definition schema_wf :: "(tabname \<Rightarrow> column list) \<Rightarrow> bool" where
  "schema_wf sch \<longleftrightarrow> (\<forall>t. distinct (map cname (sch t)) \<and>
     (\<forall>c \<in> set (sch t). \<forall>now. well_typed (ctype c) (default_value now c)))"

lemma pg_schema_wf: "schema_wf pg_schema"
  unfolding schema_wf_def
proof
  fix t show "distinct (map cname (pg_schema t)) \<and>
     (\<forall>c \<in> set (pg_schema t). \<forall>now. well_typed (ctype c) (default_value now c))"
    by (cases t) (simp_all add: plain_def default_value_def)
qed

lemma sqlite_schema_wf: "schema_wf sqlite_schema"
  unfolding schema_wf_def
proof
  fix t show "distinct (map cname (sqlite_schema t)) \<and>
     (\<forall>c \<in> set (sqlite_schema t). \<forall>now. well_typed (ctype c) (default_value now c))"
    by (cases t) (simp_all add: plain_def default_value_def)
qed

lemma find_column_distinct:
  assumes "distinct (map cname cs)" and "i < length cs"
  shows "find_column cs (cname (cs ! i)) = Some i"
proof -
  have "positions (\<lambda>c. cname c = cname (cs ! i)) cs \<noteq> []"
    using assms(2) by (auto simp: positions_conv filter_empty_conv)
  then obtain j js where p: "positions (\<lambda>c. cname c = cname (cs ! i)) cs = j # js"
    by (auto simp: neq_Nil_conv)
  then have "find_column cs (cname (cs ! i)) = Some j" by (simp add: find_column_def)
  moreover from find_column_Some [OF this] have "j = i"
    using assms by (auto simp: distinct_conv_nth)
  ultimately show ?thesis by simp
qed

lemma fold_max_bounds:
  fixes xs :: "int list"
  shows "a \<le> fold max xs a" and "x \<in> set xs \<Longrightarrow> x \<le> fold max xs a"
    and "a \<le> b \<Longrightarrow> (\<forall>x \<in> set xs. x \<le> b) \<Longrightarrow> fold max xs a \<le> b"
proof -
  have le: "b \<le> fold max ys b" for ys :: "int list" and b
    by (induction ys arbitrary: b) (auto intro: order_trans [OF max.cobounded2])
  show "a \<le> fold max xs a" by (rule le)
  show "x \<in> set xs \<Longrightarrow> x \<le> fold max xs a"
    by (induction xs arbitrary: a) (auto intro: order_trans [OF max.cobounded1 le])
  show "a \<le> b \<Longrightarrow> (\<forall>x \<in> set xs. x \<le> b) \<Longrightarrow> fold max xs a \<le> b"
    by (induction xs arbitrary: a) auto
qed

lemma next_id_bounds:
  assumes "table_sound tb" and "i < length (cols tb)" and "auto_col (cols tb ! i)"
  shows "1 \<le> next_id tb i" and "next_id tb i \<le> seqno tb + 1"
    and "r \<in> set (rows tb) \<Longrightarrow> int_key (r ! i) < next_id tb i"
proof -
  have keys: "\<forall>k \<in> set (map int_key (column_values tb i)). k \<le> seqno tb"
    using assms by (auto simp: table_sound_def row_sound_def column_values_def) force
  have nn: "0 \<le> seqno tb" using assms(1) by (simp add: table_sound_def)
  show "1 \<le> next_id tb i"
    using fold_max_bounds(1) [of 0 "map int_key (column_values tb i)"] nn by (simp add: next_id_def)
  show "next_id tb i \<le> seqno tb + 1"
    using fold_max_bounds(3) [OF nn keys] by (simp add: next_id_def)
  show "int_key (r ! i) < next_id tb i" if "r \<in> set (rows tb)"
  proof -
    have mem: "int_key (r ! i) \<in> set (map int_key (column_values tb i))"
      using that by (auto simp: column_values_def)
    show ?thesis
      using fold_max_bounds(2) [OF mem, of 0] keys mem by (auto simp: next_id_def)
  qed
qed

context backend
begin

lemma schema_wf: "schema_wf sch"
  using backend_schema pg_schema_wf sqlite_schema_wf by auto

lemma suits_typed:
  assumes "suits E c v" and "coerce E c v = Some v'"
  shows "well_typed c v'"
proof (cases "v = Null")
  case True
  with assms(2) coerce_null show ?thesis by simp
next
  case False
  with assms show ?thesis unfolding suits_def using coerce_typed by blast
qed

lemma cell_sound:
  assumes ts: "table_sound tb" and cs: "cols tb = sch t" and as: "assigns_suit E (sch t) as"
    and bs: "assign_all E now (sch t) as = Inr bs" and i: "i < length (sch t)"
    and v: "cell E now tb bs i = Inr v"
  shows "well_typed (ctype (sch t ! i)) v \<and>
    (auto_col (sch t ! i) \<longrightarrow> (\<exists>n. v = IntV n \<and> 1 \<le> n \<and> n \<le> seqno tb + 1))"
proof (cases "map_of bs (cname (sch t ! i))")
  case (Some x)
  then obtain e j where e: "(cname (sch t ! i), e) \<in> set as"
    and j: "find_column (sch t) (cname (sch t ! i)) = Some j"
    and x: "coerce E (ctype (sch t ! j)) (eval_expr now e) = Some x"
    using assign_all_Inr [OF bs] by blast
  have "j = i"
    using j find_column_distinct [OF _ i] schema_wf by (simp add: schema_wf_def)
  with e j as have "\<not> auto_col (sch t ! i)" and "suits E (ctype (sch t ! i)) (eval_expr now e)"
    unfolding assigns_suit_def by auto
  moreover have "v = x" using v Some cs by (simp add: cell_def)
  ultimately show ?thesis using x \<open>j = i\<close> suits_typed by blast
next
  case None
  with v cs have d: "default_for E now tb i = Inr v" by (simp add: cell_def)
  show ?thesis
  proof (cases "auto_col (sch t ! i)")
    case True
    with d cs have "v = IntV (next_id tb i)"
      by (auto simp: default_for_def split: if_splits)
    moreover have "well_typed (ctype (sch t ! i)) (IntV k)" for k
      using True by (auto simp: auto_col_def)
    ultimately show ?thesis
      using next_id_bounds(1,2) [OF ts, of i] True cs i by auto
  next
    case False
    with d cs have "coerce E (ctype (sch t ! i)) (default_value now (sch t ! i)) = Some v"
      by (auto simp: default_for_def Let_def split: option.splits)
    moreover have "suits E (ctype (sch t ! i)) (default_value now (sch t ! i))"
      using schema_wf nth_mem [OF i] by (simp add: suits_def schema_wf_def)
    ultimately show ?thesis using False suits_typed by blast
  qed
qed

lemma insert_row_sound:
  assumes ts: "table_sound tb" and cs: "cols tb = sch t" and as: "assigns_suit E (sch t) as"
    and bs: "assign_all E now (cols tb) as = Inr bs"
    and r: "build_row E now tb bs [0..<length (cols tb)] = Inr r"
  shows "table_sound ((bump tb)\<lparr>rows := rows tb @ [r]\<rparr>)"
proof -
  have len: "length r = length (sch t)"
    using build_row_nth(1) [OF r] cs by simp
  have c: "well_typed (ctype (sch t ! i)) (r ! i) \<and>
      (auto_col (sch t ! i) \<longrightarrow> (\<exists>n. r ! i = IntV n \<and> 1 \<le> n \<and> n \<le> seqno tb + 1))"
    if "i < length (sch t)" for i
    using cell_sound [OF ts cs as _ that] bs build_row_nth(2) [OF r] that cs by simp
  then have "row_sound ((bump tb)\<lparr>rows := rows tb @ [r]\<rparr>) r"
    using len cs by (simp add: row_sound_def list_all2_conv_all_nth)
  with table_sound_bump [OF ts] show ?thesis
    by (auto simp: table_sound_def row_sound_def)
qed

lemma insert_into_sound:
  assumes "server_inv E sch d" and "assigns_suit E (sch t) as"
  shows "server_inv E sch (snd (insert_into E t as now d))"
proof -
  obtain r d' where res: "insert_into E t as now d = (r, d')" by (cases "insert_into E t as now d")
  have ok: "db_ok E d'"
    using insert_into_db_ok [of E d t as now] assms(1) res by (simp add: server_inv_def)
  have inst: "installed sch d" and snd: "sound d" using assms(1) by (auto simp: server_inv_def)
  obtain tb where tb: "d t = Some tb" "cols tb = sch t" by (rule installedD [OF inst])
  have ts: "table_sound tb" using snd tb(1) by (simp add: sound_def)
  have upd: "server_inv E sch d'" if "d' = d(t \<mapsto> tb')" "cols tb' = sch t" "table_sound tb'" for tb'
    using that ok inst snd by (auto simp: server_inv_def installed_def sound_def)
  show ?thesis
  proof (cases r)
    case (Inl e)
    with res have "insert_into E t as now d = (Inl e, d')" by simp
    from insert_into_Inl [OF this] tb consider "d' = d" | "d' = d(t \<mapsto> bump tb)" by auto
    then show ?thesis
    proof cases
      case 1
      then show ?thesis using assms(1) res by simp
    next
      case 2
      then show ?thesis using upd [of "bump tb"] tb table_sound_bump [OF ts] res by simp
    qed
  next
    case (Inr u)
    with res have "insert_into E t as now d = (Inr (), d')" by simp
    then obtain tb0 bs row where "d t = Some tb0" "assign_all E now (cols tb0) as = Inr bs"
      "build_row E now tb0 bs [0..<length (cols tb0)] = Inr row"
      "d' = d(t \<mapsto> (bump tb0)\<lparr>rows := rows tb0 @ [row]\<rparr>)"
      by (rule insert_into_Inr)
    then show ?thesis
      using upd [of "(bump tb)\<lparr>rows := rows tb @ [row]\<rparr>"] tb res
        insert_row_sound [OF ts tb(2) assms(2)] by simp
  qed
qed

lemma delete_from_sound:
  assumes "server_inv E sch d"
  shows "server_inv E sch (snd (delete_from E t cs now d))"
proof -
  have inst: "installed sch d" and snd: "sound d" using assms by (auto simp: server_inv_def)
  obtain tb where tb: "d t = Some tb" "cols tb = sch t" by (rule installedD [OF inst])
  have "table_sound (tb\<lparr>rows := filter p (rows tb)\<rparr>)" for p
    using snd tb(1) by (auto simp: sound_def table_sound_def row_sound_def)
  then have "server_inv E sch (d(t \<mapsto> tb\<lparr>rows := filter p (rows tb)\<rparr>))"
    if "db_violation E (d(t \<mapsto> tb\<lparr>rows := filter p (rows tb)\<rparr>)) = None" for p
    using that inst snd tb by (auto simp: server_inv_def db_ok_def installed_def sound_def)
  with assms tb(1) show ?thesis
    by (auto simp: delete_from_def Let_def split: sum.splits option.splits)
qed

lemma update_row_sound:
  assumes ts: "table_sound tb" and i: "find_column (cols tb) n = Some i"
    and na: "\<not> auto_col (cols tb ! i)" and v: "well_typed (ctype (cols tb ! i)) v"
  shows "table_sound (tb\<lparr>rows := map (\<lambda>r. if row_satisfies ivs r then r[i := v] else r) (rows tb)\<rparr>)"
proof -
  have "row_sound tb (r[i := v])" if "row_sound tb r" for r
    using that find_column_Some [OF i] na v
    by (auto simp: row_sound_def list_all2_conv_all_nth nth_list_update)
  with ts show ?thesis by (auto simp: table_sound_def row_sound_def)
qed

lemma update_set_sound:
  assumes inv: "server_inv E sch d" and as: "assigns_suit E (sch t) [(n, e)]"
  shows "server_inv E sch (snd (update_set E t n e cs now d))"
proof (cases "fst (update_set E t n e cs now d)")
  case (Inl x)
  then have "snd (update_set E t n e cs now d) = d"
    by (auto simp: update_set_def Let_def split: option.splits sum.splits)
  with inv show ?thesis by simp
next
  case (Inr u)
  have inst: "installed sch d" and snd: "sound d" using inv by (auto simp: server_inv_def)
  obtain tb where tb: "d t = Some tb" "cols tb = sch t" by (rule installedD [OF inst])
  from Inr tb(1) obtain i v ivs where i: "find_column (cols tb) n = Some i"
    and v: "coerce E (ctype (cols tb ! i)) (eval_expr now e) = Some v"
    and d': "snd (update_set E t n e cs now d) =
      d(t \<mapsto> tb\<lparr>rows := map (\<lambda>r. if row_satisfies ivs r then r[i := v] else r) (rows tb)\<rparr>)"
    by (auto simp: update_set_def Let_def split: option.splits sum.splits)
  have "\<not> auto_col (cols tb ! i)" and "well_typed (ctype (cols tb ! i)) v"
    using as i v tb(2) suits_typed by (auto simp: assigns_suit_def)
  then have "table_sound (tb\<lparr>rows := map (\<lambda>r. if row_satisfies ivs r then r[i := v] else r) (rows tb)\<rparr>)"
    using update_row_sound [OF _ i] snd tb(1) by (simp add: sound_def)
  then show ?thesis
    using update_set_db_ok [of E d t n e cs now] inv tb unfolding d'
    by (auto simp: server_inv_def installed_def sound_def)
qed

abbreviation inv_world :: "world \<Rightarrow> bool" where
  "inv_world w \<equiv> server_inv E sch (tabs w)"

lemma keeps_insert:
  "assigns_suit E (sch t) as \<Longrightarrow> keeps inv_world (exec E (insert_into E t as))"
  by (rule keeps_exec) (rule insert_into_sound)

lemma keeps_delete [keeps_intros]: "keeps inv_world (exec E (delete_from E t cs))"
  by (rule keeps_exec) (rule delete_from_sound)

lemma keeps_update:
  "assigns_suit E (sch t) [(n, e)] \<Longrightarrow> keeps inv_world (exec E (update_set E t n e cs))"
  by (rule keeps_exec) (rule update_set_sound)

text \<open>The inserts and updates of the program only write values that suit their columns.\<close>

lemma suit_user:
  "assigns_suit E (sch Users)
     [(''uname'', Val (TextV u)), (''token'', Val (TextV k)), (''admin'', Val (IntV a))]"
  using backend_schema
  by (auto simp: assigns_suit_def suits_def find_column_def plain_def auto_col_def)

lemma suit_ban:
  "assigns_suit E (sch BannedUsers) [(''user_id'', Val (IntV u)), (''expire'', NowPlus k)]"
  "assigns_suit E (sch BannedUsers) [(''expire'', NowPlus k)]"
  using backend_schema
  by (auto simp: assigns_suit_def suits_def find_column_def plain_def auto_col_def)

lemma suit_ip:
  "assigns_suit E (sch BannedIps) [(''ip'', Val (TextV ip)), (''expire'', Val (TimeV date))]"
  using backend_schema
  by (auto simp: assigns_suit_def suits_def find_column_def plain_def auto_col_def)

lemma suit_community:
  "assigns_suit E (sch Communities)
     [(''name'', Val (TextV n)), (''admin'', Val (IntV a)), (''public'', Val (IntV p))]"
  using backend_schema
  by (auto simp: assigns_suit_def suits_def find_column_def plain_def auto_col_def)

lemma suit_channel:
  "assigns_suit E (sch Channels)
     [(''name'', Val (TextV n)), (''community'', Val (IntV c)),
      (''admin'', Val (IntV a)), (''allow_anon'', Val (IntV p))]"
  using backend_schema
  by (auto simp: assigns_suit_def suits_def find_column_def plain_def auto_col_def)

lemmas keeps_statements =
  suit_user [THEN keeps_insert] suit_ban(1) [THEN keeps_insert] suit_ban(2) [THEN keeps_update]
  suit_ip [THEN keeps_insert] suit_community [THEN keeps_insert] suit_channel [THEN keeps_insert]

lemma keeps_isUserValid: "keeps inv_world (pg_isUserValid E uname token)"
  unfolding pg_isUserValid_def by (intro keeps_intros)

lemma keeps_isUserAdmin: "keeps inv_world (pg_isUserAdmin E uname)"
  unfolding pg_isUserAdmin_def by (intro keeps_intros)

lemma keeps_isUserModerator: "keeps inv_world (pg_isUserModerator E uname c)"
  unfolding pg_isUserModerator_def by (intro keeps_intros)

lemma keeps_isIPBanned: "keeps inv_world (pg_isIPBanned E ip)"
  unfolding pg_isIPBanned_def by (intro keeps_intros)

lemma keeps_isUserBanned: "keeps inv_world (pg_isUserBanned E uname ip)"
  unfolding pg_isUserBanned_def by (intro keeps_intros keeps_isIPBanned keeps_statements)

lemma keeps_banUser: "keeps inv_world (pg_banUser E uname days)"
  unfolding pg_banUser_def by (intro keeps_intros keeps_statements)

lemma keeps_createUser: "keeps inv_world (pg_createUser E uname token admin)"
  unfolding pg_createUser_def by (intro keeps_intros keeps_statements)

lemma keeps_createChannel: "keeps inv_world (pg_createChannel E name c a p)"
  unfolding pg_createChannel_def by (intro keeps_intros keeps_statements)

lemma keeps_createCommunity: "keeps inv_world (pg_createCommunity E name a p)"
  unfolding pg_createCommunity_def by (intro keeps_intros keeps_statements)

lemma keeps_rowsets:
  "keeps inv_world (pg_getCommunityRowset E)"
  "keeps inv_world (pg_getCommunityChannelsRowset E c)"
  "keeps inv_world (pg_getChannelMessages E c)"
  "keeps inv_world (pg_getChannelRow E c)"
  unfolding pg_getCommunityRowset_def pg_getCommunityChannelsRowset_def
    pg_getChannelMessages_def pg_getChannelRow_def
  by (intro keeps_intros)+

lemma sqlite_banUser_eq: "sqlite_banUser E = pg_banUser E"
  by (intro ext) (simp only: sqlite_banUser_def pg_banUser_def)

end

end
