(* ===== verification/DbSpec.thy ===== *)
theory DbSpec
  imports DbInvariant
begin

text \<open>
  What the database layer promises, over an abstract view of the tables: the user directory
  (a partial map from user names), the set of bans, and the channels. The methods of
  \<open>Database\<close> are shown to implement it on every state that satisfies the invariant of
  \<open>DbInvariant\<close>, for every back end.
\<close>

section \<open>Stored rows and headers\<close>

definition stored :: "db \<Rightarrow> tabname \<Rightarrow> sqlval list list" where
  "stored d t = (case d t of None \<Rightarrow> [] | Some tb \<Rightarrow> rows tb)"

definition header_of :: "tabname \<Rightarrow> header" where
  "header_of t = map (\<lambda>c. (t, cname c)) (pg_schema t)"

lemma sqlite_header: "map (\<lambda>c. (t, cname c)) (sqlite_schema t) = header_of t"
  by (cases t) (simp_all add: header_of_def plain_def)

lemma sqlite_length: "length (sqlite_schema t) = length (pg_schema t)"
  by (cases t) simp_all

lemma stored_simps [simp]:
  "stored (d(t \<mapsto> tb)) u = (if u = t then rows tb else stored d u)"
  by (simp add: stored_def)

lemma header_simps:
  "header_of Users = [(Users, ''user_id''), (Users, ''uname''), (Users, ''token''), (Users, ''admin'')]"
  "header_of BannedUsers = [(BannedUsers, ''entry_id''), (BannedUsers, ''user_id''), (BannedUsers, ''expire'')]"
  "header_of BannedIps = [(BannedIps, ''entry_id''), (BannedIps, ''ip''), (BannedIps, ''expire'')]"
  "header_of Communities = [(Communities, ''community_id''), (Communities, ''name''),
     (Communities, ''admin''), (Communities, ''public'')]"
  "header_of Channels = [(Channels, ''channel_id''), (Channels, ''name''), (Channels, ''community''),
     (Channels, ''admin''), (Channels, ''allow_anon'')]"
  "header_of Messages = [(Messages, ''msg_id''), (Messages, ''user_id''), (Messages, ''channel''),
     (Messages, ''thread_id''), (Messages, ''thread_child''), (Messages, ''edited''),
     (Messages, ''mtext''), (Messages, ''mdate'')]"
  by (simp_all add: header_of_def plain_def)

lemma distinct_map_filter_eq:
  "distinct (filter P (map f xs)) \<Longrightarrow> x \<in> set xs \<Longrightarrow> y \<in> set xs \<Longrightarrow> f x = f y \<Longrightarrow> P (f x) \<Longrightarrow> x = y"
  by (induction xs) (force simp: image_iff split: if_splits)+

section \<open>The user directory\<close>

fun text_of :: "sqlval \<Rightarrow> string" where
  "text_of (TextV s) = s"
| "text_of _ = []"

text \<open>A user name is mapped to its id, its token and whether it is an administrator.\<close>

type_synonym directory = "string \<rightharpoonup> int \<times> string \<times> bool"

definition directory :: "db \<Rightarrow> directory" where
  "directory d u = (case List.find (\<lambda>r. r ! 1 = TextV u) (stored d Users) of
      None \<Rightarrow> None
    | Some r \<Rightarrow> Some (int_key (r ! 0), text_of (r ! 2), r ! 3 = IntV 1))"

text \<open>The contract of the user operations, over directories.\<close>

definition valid_credentials :: "directory \<Rightarrow> string \<Rightarrow> string \<Rightarrow> bool" where
  "valid_credentials m u k \<longleftrightarrow> (\<exists>i a. m u = Some (i, k, a))"

definition is_admin :: "directory \<Rightarrow> string \<Rightarrow> bool" where
  "is_admin m u \<longleftrightarrow> (\<exists>i k. m u = Some (i, k, True))"

definition has_admin :: "directory \<Rightarrow> bool" where
  "has_admin m \<longleftrightarrow> (\<exists>u. is_admin m u)"

section \<open>Constraint checking of an insert\<close>

text \<open>On a database without violations, only the new row can introduce one.\<close>

definition row_violation :: "env \<Rightarrow> db \<Rightarrow> table \<Rightarrow> sqlval list \<Rightarrow> exn option" where
  "row_violation E d tb r =
     (if \<not> row_fits (cols tb) r then Some NotNullViolation
      else if \<exists>i < length (cols tb). key_col (cols tb ! i) \<and> r ! i \<noteq> Null \<and>
                r ! i \<in> set (column_values tb i) then Some UniqueViolation
      else if fk_enforced E \<and> (\<exists>i < length (cols tb). \<exists>u. refs (cols tb ! i) = Some u \<and>
                r ! i \<noteq> Null \<and> r ! i \<notin> set (primary_values d u)) then Some ForeignKeyViolation
      else None)"

lemma distinct_filter_snoc:
  "distinct (filter P (xs @ [x])) \<longleftrightarrow> distinct (filter P xs) \<and> (P x \<longrightarrow> x \<notin> set xs)"
  by auto

lemma unique_ok_snoc:
  assumes "unique_ok tb" and "cols tb' = cols tb" and "rows tb' = rows tb @ [r]"
  shows "unique_ok tb' \<longleftrightarrow> \<not> (\<exists>i < length (cols tb). key_col (cols tb ! i) \<and> r ! i \<noteq> Null \<and>
                r ! i \<in> set (column_values tb i))"
proof -
  have cv: "column_values tb' i = column_values tb i @ [r ! i]" for i
    using assms(3) by (simp add: column_values_def)
  show ?thesis
    using assms(1,2) unfolding unique_ok_def list_all_iff cv distinct_filter_snoc by auto
qed

lemma primary_values_snoc:
  assumes "d t = Some tb" and "cols tb' = cols tb" and "rows tb' = rows tb @ [r]"
  shows "set (primary_values d u) \<subseteq> set (primary_values (d(t \<mapsto> tb')) u)"
  using assms by (auto simp: primary_values_def column_values_def split: option.splits list.splits)

lemma refs_ok_snoc:
  assumes "refs_ok d tb" and "cols tb' = cols tb" and "rows tb' = rows tb @ [r]"
    and "\<And>u. set (primary_values d u) \<subseteq> set (primary_values d' u)"
  shows "refs_ok d' tb' \<longleftrightarrow> \<not> (\<exists>i < length (cols tb). \<exists>u. refs (cols tb ! i) = Some u \<and>
                r ! i \<noteq> Null \<and> r ! i \<notin> set (primary_values d' u))"
proof -
  have cv: "column_values tb' i = column_values tb i @ [r ! i]" for i
    using assms(3) by (simp add: column_values_def)
  have "\<forall>i < length (cols tb). \<forall>u. refs (cols tb ! i) = Some u \<longrightarrow>
      (\<forall>v \<in> set (column_values tb i). v = Null \<or> v \<in> set (primary_values d' u))"
    using assms(1,4) by (fastforce simp: refs_ok_def list_all_iff split: option.splits)
  then show ?thesis
    using assms(2) unfolding refs_ok_def list_all_iff cv
    by (fastforce split: option.splits)
qed

lemma violation_snoc:
  assumes "violation E d tb = None" and "d t = Some tb"
    and "cols tb' = cols tb" and "rows tb' = rows tb @ [r]"
  shows "violation E (d(t \<mapsto> tb')) tb' = row_violation E (d(t \<mapsto> tb')) tb r"
proof -
  have old: "\<forall>r \<in> set (rows tb). row_fits (cols tb) r" "unique_ok tb" "fk_enforced E \<longrightarrow> refs_ok d tb"
    using assms(1) by (auto simp: violation_None_iff)
  have pv: "set (primary_values d u) \<subseteq> set (primary_values (d(t \<mapsto> tb')) u)" for u
    using assms(2-4) by (rule primary_values_snoc)
  have u: "unique_ok tb' \<longleftrightarrow> \<not> (\<exists>i < length (cols tb). key_col (cols tb ! i) \<and> r ! i \<noteq> Null \<and>
                r ! i \<in> set (column_values tb i))"
    by (rule unique_ok_snoc) (use old assms in auto)
  have f: "fk_enforced E \<Longrightarrow> refs_ok (d(t \<mapsto> tb')) tb' \<longleftrightarrow>
      \<not> (\<exists>i < length (cols tb). \<exists>u. refs (cols tb ! i) = Some u \<and>
                r ! i \<noteq> Null \<and> r ! i \<notin> set (primary_values (d(t \<mapsto> tb')) u))"
    by (rule refs_ok_snoc [OF _ assms(3,4) pv]) (use old(3) in simp)
  have n: "list_all (row_fits (cols tb')) (rows tb') \<longleftrightarrow> row_fits (cols tb) r"
    using old(1) assms(3,4) by (auto simp: list_all_iff)
  show ?thesis
    unfolding violation_def row_violation_def n u using f by (auto simp del: fun_upd_apply)
qed

lemma db_violation_snoc:
  assumes "db_ok E d" and "d t = Some tb" and "cols tb' = cols tb" and "rows tb' = rows tb @ [r]"
  shows "db_violation E (d(t \<mapsto> tb')) = row_violation E (d(t \<mapsto> tb')) tb r"
proof -
  let ?d = "d(t \<mapsto> tb')"
  let ?f = "\<lambda>u. case ?d u of None \<Rightarrow> None | Some x \<Rightarrow> violation E ?d x"
  have pv: "set (primary_values d u) \<subseteq> set (primary_values ?d u)" for u
    using assms(2-4) by (rule primary_values_snoc)
  have other: "?f u = None" if "u \<noteq> t" for u
  proof (cases "d u")
    case (Some x)
    have "refs_ok ?d x" if "refs_ok d x"
      using that pv
      by (fastforce simp: refs_ok_def list_all_iff simp del: fun_upd_apply split: option.splits)
    moreover have "violation E d x = None" using assms(1) Some by (simp add: db_ok_iff)
    ultimately show ?thesis using that Some by (simp add: violation_None_iff)
  qed (use that in simp)
  have "violation E ?d tb' = row_violation E ?d tb r"
    by (rule violation_snoc) (use assms in \<open>simp_all add: db_ok_iff\<close>)
  then have "?f t = row_violation E ?d tb r" by simp
  moreover have "List.map_filter ?f all_tables = (case ?f t of None \<Rightarrow> [] | Some e \<Rightarrow> [e])"
    using other by (cases t) (simp_all add: all_tables_def map_filter_simps del: fun_upd_apply split: option.splits)
  ultimately show ?thesis
    by (simp add: db_violation_def del: fun_upd_apply split: option.splits)
qed

lemma find_append:
  "List.find P (xs @ ys) = (case List.find P xs of Some x \<Rightarrow> Some x | None \<Rightarrow> List.find P ys)"
  by (induction xs) auto

definition with_row :: "table \<Rightarrow> sqlval list \<Rightarrow> table" where
  "with_row tb r = (bump tb)\<lparr>rows := rows tb @ [r]\<rparr>"

lemma with_row_simps [simp]:
  "cols (with_row tb r) = cols tb" "rows (with_row tb r) = rows tb @ [r]"
  "seqno (with_row tb r) = seqno tb + 1"
  by (simp_all add: with_row_def)

context backend
begin

lemma header_sch: "map (\<lambda>c. (t, cname c)) (sch t) = header_of t"
  using backend_schema sqlite_header by (auto simp: header_of_def)

lemma length_sch: "length (sch t) = length (pg_schema t)"
  using backend_schema sqlite_length by auto

lemma base_eq:
  assumes "installed sch d"
  shows "base d t = Inr (header_of t, stored d t)"
proof -
  obtain tb where "d t = Some tb" "cols tb = sch t" by (rule installedD [OF assms])
  then show ?thesis by (simp add: base_def stored_def header_sch)
qed

lemma select_from_eq:
  assumes "installed sch d" and "resolve_all (header_of t) cs = Inr ivs"
  shows "select_from E t cs d =
    Inr (header_of t, scan E (filter (row_satisfies ivs) (stored d t)))"
  using assms by (simp add: select_from_def base_eq where_clause_def scanned_def)

lemma set_scan [simp]: "set (scan E rs) = set rs"
  using scan_mset [of rs] by (metis set_mset_mset)

lemma length_scan [simp]: "length (scan E rs) = length rs"
  using scan_mset [of rs] by (metis size_mset)

lemma scan_Nil_iff [simp]: "scan E rs = [] \<longleftrightarrow> rs = []"
  using length_scan [of rs] by (metis length_0_conv)

lemma stored_table:
  assumes "server_inv E sch d"
  obtains tb where "d t = Some tb" and "cols tb = sch t" and "stored d t = rows tb"
    and "table_sound tb" and "violation E d tb = None"
proof -
  from assms have "installed sch d" by (simp add: server_inv_def)
  then obtain tb where "d t = Some tb" "cols tb = sch t" by (rule installedD)
  with assms that show thesis
    by (auto simp: server_inv_def sound_def db_ok_iff stored_def)
qed

text \<open>Every stored row has the schema's width, typed values, and no null where none may be.\<close>

lemma stored_row:
  assumes "server_inv E sch d" and "r \<in> set (stored d t)" and "i < length (sch t)"
  shows "length r = length (sch t)" and "well_typed (ctype (sch t ! i)) (r ! i)"
    and "needs_value (sch t ! i) \<Longrightarrow> r ! i \<noteq> Null"
proof -
  obtain tb where tb: "d t = Some tb" "cols tb = sch t" "stored d t = rows tb"
    "table_sound tb" "violation E d tb = None"
    by (rule stored_table [OF assms(1)])
  then have "list_all2 (\<lambda>c v. well_typed (ctype c) v) (sch t) r" and "row_fits (sch t) r"
    using assms(2) by (auto simp: table_sound_def row_sound_def violation_None_iff)
  then show "length r = length (sch t)" "well_typed (ctype (sch t ! i)) (r ! i)"
    "needs_value (sch t ! i) \<Longrightarrow> r ! i \<noteq> Null"
    using assms(3) by (auto simp: row_fits_def list_all2_conv_all_nth)
qed

lemma stored_unique:
  assumes "server_inv E sch d" and "i < length (sch t)" and "key_col (sch t ! i)"
    and "r \<in> set (stored d t)" and "r' \<in> set (stored d t)" and "r ! i = r' ! i" and "r ! i \<noteq> Null"
  shows "r = r'"
proof -
  obtain tb where tb: "d t = Some tb" "cols tb = sch t" "stored d t = rows tb"
    "table_sound tb" "violation E d tb = None"
    by (rule stored_table [OF assms(1)])
  then have "distinct (filter (\<lambda>v. v \<noteq> Null) (map (\<lambda>r. r ! i) (rows tb)))"
    using assms(2,3) by (auto simp: violation_None_iff unique_ok_def list_all_iff column_values_def)
  then show ?thesis
    by (rule distinct_map_filter_eq) (use assms(4-7) tb(3) in simp_all)
qed

section \<open>Inserts, evaluated\<close>

lemma insert_eval:
  assumes "server_inv E sch d" and "d t = Some tb"
    and "assign_all E now (cols tb) as = Inr bs"
    and "build_row E now tb bs [0..<length (cols tb)] = Inr r"
  shows "insert_into E t as now d = (case row_violation E (d(t \<mapsto> with_row tb r)) tb r of
     Some e \<Rightarrow> (Inl e, d(t \<mapsto> bump tb)) | None \<Rightarrow> (Inr (), d(t \<mapsto> with_row tb r)))"
proof -
  have "db_violation E (d(t \<mapsto> with_row tb r)) = row_violation E (d(t \<mapsto> with_row tb r)) tb r"
    by (rule db_violation_snoc) (use assms in \<open>simp_all add: server_inv_def\<close>)
  with assms show ?thesis
    by (simp add: insert_into_def with_row_def [symmetric] del: fun_upd_apply split: option.splits)
qed

lemma next_id_fresh:
  assumes "server_inv E sch d" and "d t = Some tb" and "i < length (sch t)" and "auto_col (sch t ! i)"
  shows "IntV (next_id tb i) \<notin> set (column_values tb i)"
proof
  assume "IntV (next_id tb i) \<in> set (column_values tb i)"
  then obtain r where r: "r \<in> set (rows tb)" "r ! i = IntV (next_id tb i)"
    by (auto simp: column_values_def)
  have "table_sound tb" and "cols tb = sch t"
    by (rule server_inv_table [OF assms(1,2)])+
  with next_id_bounds(3) [of tb i r] r assms(3,4) show False by simp
qed

lemma key_next_id:
  assumes "server_inv E sch d" and "d t = Some tb" and "0 < length (sch t)" and "auto_col (sch t ! 0)"
  shows "default_for E now tb 0 = (if int32 (next_id tb 0) then Inr (IntV (next_id tb 0)) else Inl SequenceExhausted)"
  using assms(3,4) server_inv_table(1) [OF assms(1,2)] by (simp add: default_for_def Let_def)

text \<open>A new user.\<close>

lemma insert_user:
  assumes inv: "server_inv E sch d" and tb: "d Users = Some tb"
    and u: "utf8_length u \<le> 50" and k: "utf8_length k \<le> 50" and a: "a = 0 \<or> a = 1"
  defines "uid \<equiv> next_id tb 0"
  shows "insert_into E Users [(''uname'', Val (TextV u)), (''token'', Val (TextV k)), (''admin'', Val (IntV a))] now d =
    (if \<not> int32 uid then (Inl SequenceExhausted, d(Users \<mapsto> bump tb))
     else if TextV u \<in> set (column_values tb 1) then (Inl UniqueViolation, d(Users \<mapsto> bump tb))
     else (Inr (), d(Users \<mapsto> with_row tb [IntV uid, TextV u, TextV k, IntV a])))"
proof -
  have cols: "cols tb = sch Users" by (rule server_inv_table [OF inv tb])
  let ?bs = "[(''uname'', TextV u), (''token'', TextV k), (''admin'', IntV a)]"
  have as: "assign_all E now (cols tb) [(''uname'', Val (TextV u)), (''token'', Val (TextV k)), (''admin'', Val (IntV a))] = Inr ?bs"
    using backend_schema cols coerce_varchar [OF u] coerce_varchar [OF k] coerce_bool [OF a]
    by (auto simp: find_column_def plain_def)
  have auto: "auto_col (sch Users ! 0)" "0 < length (sch Users)"
    using backend_schema by (auto simp: auto_col_def plain_def)
  have br: "build_row E now tb ?bs [0..<length (cols tb)] =
      (if int32 uid then Inr [IntV uid, TextV u, TextV k, IntV a] else Inl SequenceExhausted)"
    using backend_schema cols key_next_id [OF inv tb auto(2,1), of now]
    by (auto simp: cell_def plain_def uid_def)
  have fresh: "IntV uid \<notin> set (column_values tb 0)"
    unfolding uid_def by (rule next_id_fresh [OF inv tb auto(2,1)])
  show ?thesis
  proof (cases "int32 uid")
    case False
    with tb as br show ?thesis by (simp add: insert_into_def)
  next
    case True
    let ?r = "[IntV uid, TextV u, TextV k, IntV a]"
    have "row_violation E (d(Users \<mapsto> with_row tb ?r)) tb ?r =
        (if TextV u \<in> set (column_values tb 1) then Some UniqueViolation else None)"
      using backend_schema cols fresh
      by (auto simp: row_violation_def row_fits_def key_col_def plain_def less_Suc_eq numeral_eq_Suc)
    with True insert_eval [OF inv tb as] br show ?thesis by simp
  qed
qed

section \<open>Users\<close>

lemma user_row_shape:
  assumes inv: "server_inv E sch d" and r: "r \<in> set (stored d Users)"
  obtains i u k v where "r = [IntV i, TextV u, TextV k, v]" and "v = Null \<or> (\<exists>a. v = IntV a)" and "1 \<le> i"
proof -
  obtain tb where tb: "d Users = Some tb" "cols tb = sch Users" "stored d Users = rows tb" "table_sound tb"
    by (rule stored_table [OF inv])
  have L: "length (sch Users) = 4" by (simp add: length_sch)
  have auto: "auto_col (sch Users ! 0)" using backend_schema by (auto simp: auto_col_def plain_def)
  have len: "length r = 4" using stored_row(1) [OF inv r, of 0] L by simp
  have "row_sound tb r" using tb r by (simp add: table_sound_def)
  then obtain i where i: "r ! 0 = IntV i" "1 \<le> i"
    using auto L tb(2) unfolding row_sound_def by (metis zero_less_numeral)
  obtain u where u: "r ! 1 = TextV u"
    using stored_row(2,3) [OF inv r, of 1] L backend_schema
    by (auto simp: needs_value_def plain_def elim: well_typed.elims)
  obtain k where k: "r ! 2 = TextV k"
    using stored_row(2,3) [OF inv r, of 2] L backend_schema
    by (auto simp: needs_value_def plain_def elim: well_typed.elims)
  have v: "r ! 3 = Null \<or> (\<exists>a. r ! 3 = IntV a)"
    using stored_row(2) [OF inv r, of 3] L backend_schema
    by (auto simp: plain_def elim: well_typed.elims)
  have "r = [r ! 0, r ! 1, r ! 2, r ! 3]"
    using len by (auto simp: list_eq_iff_nth_eq less_Suc_eq numeral_eq_Suc)
  with that i u k v show thesis by metis
qed

lemma user_unique:
  assumes "server_inv E sch d" and "r \<in> set (stored d Users)" and "r' \<in> set (stored d Users)"
    and "r ! 1 = TextV u" and "r' ! 1 = TextV u"
  shows "r = r'"
proof (rule stored_unique [OF assms(1) _ _ assms(2,3)])
  show "1 < length (sch Users)" by (simp add: length_sch)
  show "key_col (sch Users ! 1)" using backend_schema by (auto simp: key_col_def plain_def)
qed (use assms(4,5) in simp_all)

lemma directory_Some:
  assumes inv: "server_inv E sch d"
  shows "directory d u = Some (i, k, a) \<longleftrightarrow>
    (\<exists>v. [IntV i, TextV u, TextV k, v] \<in> set (stored d Users) \<and> (a \<longleftrightarrow> v = IntV 1))"
proof
  assume "directory d u = Some (i, k, a)"
  then obtain r where f: "List.find (\<lambda>r. r ! 1 = TextV u) (stored d Users) = Some r"
    and e: "i = int_key (r ! 0)" "k = text_of (r ! 2)" "a \<longleftrightarrow> r ! 3 = IntV 1"
    by (auto simp: directory_def split: option.splits)
  from f have r: "r \<in> set (stored d Users)" "r ! 1 = TextV u"
    by (auto simp: find_Some_iff)
  obtain i' u' k' v where "r = [IntV i', TextV u', TextV k', v]" by (rule user_row_shape [OF inv r(1)])
  with r e show "\<exists>v. [IntV i, TextV u, TextV k, v] \<in> set (stored d Users) \<and> (a \<longleftrightarrow> v = IntV 1)"
    by auto
next
  assume "\<exists>v. [IntV i, TextV u, TextV k, v] \<in> set (stored d Users) \<and> (a \<longleftrightarrow> v = IntV 1)"
  then obtain v where r: "[IntV i, TextV u, TextV k, v] \<in> set (stored d Users)" "a \<longleftrightarrow> v = IntV 1"
    by auto
  then have "List.find (\<lambda>r. r ! 1 = TextV u) (stored d Users) \<noteq> None"
    by (auto simp: find_None_iff)
  then obtain r' where f: "List.find (\<lambda>r. r ! 1 = TextV u) (stored d Users) = Some r'" by auto
  then have "r' \<in> set (stored d Users)" "r' ! 1 = TextV u" by (auto simp: find_Some_iff)
  with user_unique [OF inv r(1)] have "r' = [IntV i, TextV u, TextV k, v]" by simp
  with f r(2) show "directory d u = Some (i, k, a)" by (simp add: directory_def)
qed

lemma directory_None:
  "directory d u = None \<longleftrightarrow> TextV u \<notin> set (map (\<lambda>r. r ! 1) (stored d Users))"
  by (auto simp: directory_def find_None_iff find_Some_iff split: option.splits)
     (metis image_eqI nth_mem)

lemma resolve_users:
  "resolve_all (header_of Users) [(Col ''uname'', x), (Col ''token'', y)] = Inr [(1, x), (2, y)]"
  "resolve_all (header_of Users) [(Col ''uname'', x), (Col ''admin'', y)] = Inr [(1, x), (3, y)]"
  "resolve_all (header_of Users) [(Col ''uname'', x)] = Inr [(1, x)]"
  "resolve_all (header_of Users) [(Col ''admin'', x)] = Inr [(3, x)]"
  "resolve (header_of Users) (Col ''user_id'') = Inr 0"
  by (simp_all add: header_simps resolve_def numeral_eq_Suc)

lemma server_inv_installed: "server_inv E sch d \<Longrightarrow> installed sch d"
  by (simp add: server_inv_def)

lemma isUserValid_run:
  assumes inv: "server_inv E sch (tabs w)" and up: "session_up E (sessions w)"
  shows "pg_isUserValid E u k w =
    (Inr (valid_credentials (directory (tabs w)) u k), w\<lparr>sessions := Suc (sessions w), ticks := Suc (ticks w)\<rparr>)"
proof -
  let ?p = "row_satisfies [(1, TextV u), (2, TextV k)]"
  have "filter ?p (stored (tabs w) Users) \<noteq> [] \<longleftrightarrow> valid_credentials (directory (tabs w)) u k"
  proof
    assume "filter ?p (stored (tabs w) Users) \<noteq> []"
    then obtain r where r: "r \<in> set (stored (tabs w) Users)" "?p r" by (auto simp: filter_empty_conv)
    obtain i u' k' v where s: "r = [IntV i, TextV u', TextV k', v]" by (rule user_row_shape [OF inv r(1)])
    with r(2) have "u' = u" "k' = k" by (auto simp: row_satisfies_def sql_eq_def)
    with r(1) s have "directory (tabs w) u = Some (i, k, v = IntV 1)"
      by (auto simp: directory_Some [OF inv])
    then show "valid_credentials (directory (tabs w)) u k" by (auto simp: valid_credentials_def)
  next
    assume "valid_credentials (directory (tabs w)) u k"
    then obtain i v where "[IntV i, TextV u, TextV k, v] \<in> set (stored (tabs w) Users)"
      by (auto simp: valid_credentials_def directory_Some [OF inv])
    moreover have "?p [IntV i, TextV u, TextV k, v]" by (simp add: row_satisfies_def sql_eq_def)
    ultimately show "filter ?p (stored (tabs w) Users) \<noteq> []" by (auto simp: filter_empty_conv)
  qed
  then show ?thesis
    by (simp add: pg_isUserValid_def bind_io_def session_ok [OF up] query_def
        select_from_eq [OF server_inv_installed [OF inv] resolve_users(1)] got_data_def)
qed

lemma admin_rows:
  assumes inv: "server_inv E sch d"
  shows "filter (row_satisfies [(3, IntV 1)]) (stored d Users) = [] \<longleftrightarrow> \<not> has_admin (directory d)"
proof -
  have "r \<in> set (stored d Users) \<and> row_satisfies [(3, IntV 1)] r \<Longrightarrow> has_admin (directory d)" for r
  proof -
    assume r: "r \<in> set (stored d Users) \<and> row_satisfies [(3, IntV 1)] r"
    then obtain i u k v where "r = [IntV i, TextV u, TextV k, v]" by (blast elim: user_row_shape [OF inv])
    with r have "directory d u = Some (i, k, True)"
      by (auto simp: directory_Some [OF inv] row_satisfies_def sql_eq_def)
    then show ?thesis by (auto simp: has_admin_def is_admin_def)
  qed
  moreover have "has_admin (directory d) \<Longrightarrow>
      \<exists>r \<in> set (stored d Users). row_satisfies [(3, IntV 1)] r"
    by (force simp: has_admin_def is_admin_def directory_Some [OF inv] row_satisfies_def sql_eq_def)
  ultimately show ?thesis by (auto simp: filter_empty_conv)
qed

lemma isUserAdmin_run:
  assumes inv: "server_inv E sch (tabs w)" and up: "session_up E (sessions w)"
  shows "pg_isUserAdmin E u w =
    (Inr (is_admin (directory (tabs w)) u), w\<lparr>sessions := Suc (sessions w), ticks := Suc (ticks w)\<rparr>)"
proof -
  let ?p = "row_satisfies [(1, TextV u), (3, IntV 1)]"
  have "filter ?p (stored (tabs w) Users) \<noteq> [] \<longleftrightarrow> is_admin (directory (tabs w)) u"
  proof
    assume "filter ?p (stored (tabs w) Users) \<noteq> []"
    then obtain r where r: "r \<in> set (stored (tabs w) Users)" "?p r" by (auto simp: filter_empty_conv)
    obtain i u' k' v where s: "r = [IntV i, TextV u', TextV k', v]" by (rule user_row_shape [OF inv r(1)])
    with r(2) have "u' = u" "v = IntV 1" by (auto simp: row_satisfies_def sql_eq_def)
    with r(1) s have "directory (tabs w) u = Some (i, k', True)"
      by (auto simp: directory_Some [OF inv])
    then show "is_admin (directory (tabs w)) u" by (auto simp: is_admin_def)
  next
    assume "is_admin (directory (tabs w)) u"
    then obtain i k where "[IntV i, TextV u, TextV k, IntV 1] \<in> set (stored (tabs w) Users)"
      by (auto simp: is_admin_def directory_Some [OF inv])
    moreover have "?p [IntV i, TextV u, TextV k, IntV 1]" by (simp add: row_satisfies_def sql_eq_def)
    ultimately show "filter ?p (stored (tabs w) Users) \<noteq> []" by (auto simp: filter_empty_conv)
  qed
  then show ?thesis
    by (simp add: pg_isUserAdmin_def bind_io_def session_ok [OF up] query_def
        select_from_eq [OF server_inv_installed [OF inv] resolve_users(2)] got_data_def)
qed

text \<open>Adding a row to the users table adds an entry to the directory.\<close>

lemma directory_with_row:
  assumes "directory d u = None" and "d Users = Some tb"
  shows "directory (d(Users \<mapsto> with_row tb [IntV i, TextV u, TextV k, IntV a])) =
    (directory d)(u \<mapsto> (i, k, a = 1))"
proof
  fix v
  have "stored d Users = rows tb" using assms(2) by (simp add: stored_def)
  then have "List.find (\<lambda>r. r ! 1 = TextV v) (rows tb @ [[IntV i, TextV u, TextV k, IntV a]]) =
      (case List.find (\<lambda>r. r ! 1 = TextV v) (stored d Users) of
         Some r \<Rightarrow> Some r | None \<Rightarrow> if u = v then Some [IntV i, TextV u, TextV k, IntV a] else None)"
    by (simp add: find_append split: option.splits)
  then show "directory (d(Users \<mapsto> with_row tb [IntV i, TextV u, TextV k, IntV a])) v =
    ((directory d)(u \<mapsto> (i, k, a = 1))) v"
    using assms(1) by (auto simp: directory_def split: option.splits)
qed

lemma directory_bump: "d Users = Some tb \<Longrightarrow> directory (d(Users \<mapsto> bump tb)) = directory d"
  by (rule ext) (simp add: directory_def stored_def)

text \<open>\<^verbatim>\<open>createUser\<close>, evaluated: the three statements, the in-out parameter and both
  ways in which the insert can fail.\<close>

lemma createUser_run:
  assumes inv: "server_inv E sch (tabs w)" and up: "session_up E (sessions w)"
    and tb: "tabs w Users = Some tb"
    and u: "utf8_length u \<le> 50" and k: "utf8_length k \<le> 50" and a: "a = 0 \<or> a = 1"
  defines "m \<equiv> directory (tabs w)" and "uid \<equiv> next_id tb 0"
  defines "a' \<equiv> if has_admin m then a else 1"
  defines "w' \<equiv> w\<lparr>sessions := Suc (sessions w), ticks := ticks w + 2\<rparr>"
  shows "pg_createUser E u k a w =
    (if \<not> int32 uid then (Inl SequenceExhausted, w'\<lparr>tabs := (tabs w)(Users \<mapsto> bump tb)\<rparr>)
     else if m u \<noteq> None then (Inl UniqueViolation, w'\<lparr>tabs := (tabs w)(Users \<mapsto> bump tb)\<rparr>)
     else (Inr (uid, a'), w'\<lparr>tabs := (tabs w)(Users \<mapsto> with_row tb [IntV uid, TextV u, TextV k, IntV a']),
             ticks := ticks w + 3\<rparr>))"
proof -
  have a': "a' = 0 \<or> a' = 1" using a by (auto simp: a'_def)
  have sel: "select_from E Users [(Col ''admin'', IntV 1)] (tabs w) =
      Inr (header_of Users, scan E (filter (row_satisfies [(3, IntV 1)]) (stored (tabs w) Users)))"
    by (rule select_from_eq [OF server_inv_installed [OF inv] resolve_users(4)])
  have cnt: "length (filter (row_satisfies [(3, IntV 1)]) (stored (tabs w) Users)) = 0 \<longleftrightarrow> \<not> has_admin m"
    unfolding m_def by (simp only: length_0_conv admin_rows [OF inv])
  have dup: "TextV u \<in> set (column_values tb 1) \<longleftrightarrow> m u \<noteq> None"
    using tb by (simp add: m_def directory_None stored_def column_values_def)
  note ins = insert_user [OF inv tb u k a', folded uid_def, unfolded dup]
  let ?d = "(tabs w)(Users \<mapsto> with_row tb [IntV uid, TextV u, TextV k, IntV a'])"
  have reread: "bind_sum (select_from E Users [(Col ''uname'', TextV u)] ?d) (\<lambda>R. into_int E R ''user_id'' 0) = Inr uid"
    if "int32 uid" "m u = None"
  proof -
    have inv': "server_inv E sch ?d"
      using insert_into_sound [OF inv suit_user, of u k a' 0] ins [of 0] that by simp
    let ?S = "filter (row_satisfies [(1, TextV u)]) (stored ?d Users)"
    have "[IntV uid, TextV u, TextV k, IntV a'] \<in> set (scan E ?S)"
      by (simp add: row_satisfies_def sql_eq_def)
    then obtain r rs where rs: "scan E ?S = r # rs" by (cases "scan E ?S") auto
    then have "r \<in> set (scan E ?S)" by simp
    then have "r \<in> set (stored ?d Users)" "r ! 1 = TextV u"
      unfolding set_scan by (auto simp: row_satisfies_def sql_eq_def)
    moreover have "[IntV uid, TextV u, TextV k, IntV a'] \<in> set (stored ?d Users)" by simp
    ultimately have "r = [IntV uid, TextV u, TextV k, IntV a']"
      using user_unique [OF inv'] by simp
    with rs show ?thesis
      using select_from_eq [OF server_inv_installed [OF inv'] resolve_users(3)]
      by (simp add: into_int_def resolve_users soci_int_IntV del: fun_upd_apply stored_simps)
  qed
  have steps: "pg_createUser E u k a w =
     bind_io (exec E (insert_into E Users [(''uname'', Val (TextV u)), (''token'', Val (TextV k)), (''admin'', Val (IntV a'))]))
       (\<lambda>_. bind_io (query E (\<lambda>d. bind_sum (select_from E Users [(Col ''uname'', TextV u)] d)
                             (\<lambda>R. into_int E R ''user_id'' 0))) (\<lambda>uid. ret (uid, a'))) (w'\<lparr>ticks := Suc (ticks w)\<rparr>)"
    using cnt unfolding pg_createUser_def w'_def a'_def
    by (cases "has_admin m") (simp_all add: bind_io_def session_ok [OF up] query_def sel soci_int_IntV Let_def)
  show ?thesis
    unfolding steps
    using ins reread
    by (cases "m u") (simp_all add: bind_io_def query_def exec_def w'_def del: fun_upd_apply)
qed

end

end
