(* ===== verification/Bans.thy ===== *)
theory Bans
  imports DbSpec
begin

text \<open>
  The bans of users: the table \<^verbatim>\<open>banned_users\<close> as a map from user ids to
  expiry times, \<^verbatim>\<open>banUser\<close> as an update of that map, and what
  \<^verbatim>\<open>isUserBanned\<close> does with it.
\<close>

section \<open>The map of bans\<close>

definition bans :: "db \<Rightarrow> int \<rightharpoonup> sqlval" where
  "bans d uid = map_option (\<lambda>r. r ! 2)
     (List.find (\<lambda>r. r ! 1 = IntV uid) (stored d BannedUsers))"

text \<open>No table constraint says so, but the code only adds a row for a user without one.\<close>

definition single_bans :: "db \<Rightarrow> bool" where
  "single_bans d \<longleftrightarrow> distinct (filter (\<lambda>v. v \<noteq> Null) (map (\<lambda>r. r ! 1) (stored d BannedUsers)))"

definition user_ban :: "db \<Rightarrow> string \<Rightarrow> sqlval option" where
  "user_ban d u = (case directory d u of None \<Rightarrow> None | Some (uid, k, a) \<Rightarrow> bans d uid)"

lemma bans_None: "bans d uid = None \<longleftrightarrow> (\<forall>r \<in> set (stored d BannedUsers). r ! 1 \<noteq> IntV uid)"
  by (auto simp: bans_def find_None_iff)

lemma ban_span_eq:
  "ban_span days = (if \<bar>days\<bar> \<le> 24 then Inr (days * 86400000) else Inl Undefined)"
  by (auto simp: ban_span_def c_mul_def int32_def bind_sum_def)

text \<open>Bans of addresses; here the address is unique.\<close>

definition ip_bans :: "db \<Rightarrow> string \<rightharpoonup> sqlval" where
  "ip_bans d ip = map_option (\<lambda>r. r ! 2)
     (List.find (\<lambda>r. r ! 1 = TextV ip) (stored d BannedIps))"

lemma distinct_filter_rows:
  "distinct (filter Q (map f xs)) \<Longrightarrow> distinct (filter Q (map f (filter P xs)))"
  by (induction xs) auto

lemma find_map: "List.find P (map f xs) = map_option f (List.find (\<lambda>x. P (f x)) xs)"
  by (induction xs) simp_all

lemma join_mem:
  "r \<in> set [x @ y. x \<leftarrow> xs, y \<leftarrow> ys] \<longleftrightarrow> (\<exists>x \<in> set xs. \<exists>y \<in> set ys. r = x @ y)"
  by auto

lemma no_refs_to_ips:
  "i < length (pg_schema u) \<Longrightarrow> refs (pg_schema u ! i) \<noteq> Some BannedIps"
  "i < length (sqlite_schema u) \<Longrightarrow> refs (sqlite_schema u ! i) \<noteq> Some BannedIps"
  by (cases u; auto simp: plain_def less_Suc_eq numeral_eq_Suc)+

section \<open>Updates, evaluated\<close>

lemma row_fits_update:
  assumes "v \<noteq> Null" and "row_fits cs r"
  shows "row_fits cs (r[i := v])"
proof -
  have "needs_value (cs ! j) \<longrightarrow> r[i := v] ! j \<noteq> Null" if "j < length r" for j
    using assms that by (cases "i = j") (simp_all add: row_fits_def list_all2_conv_all_nth)
  then show ?thesis using assms(2) by (simp add: row_fits_def list_all2_conv_all_nth)
qed

context backend
begin

text \<open>An update of a column that is neither a key nor a reference breaks no constraint.\<close>

lemma update_violates_nothing:
  assumes inv: "server_inv E sch d" and tb: "d t = Some tb" and i: "i < length (cols tb)"
    and plain: "\<not> key_col (cols tb ! i)" "refs (cols tb ! i) = None" and v: "v \<noteq> Null"
  shows "db_ok E (d(t \<mapsto> tb\<lparr>rows := map (\<lambda>r. if P r then r[i := v] else r) (rows tb)\<rparr>))"
    (is "db_ok E ?d")
proof -
  let ?tb = "tb\<lparr>rows := map (\<lambda>r. if P r then r[i := v] else r) (rows tb)\<rparr>"
  have cv: "column_values ?tb j = column_values tb j" if "i \<noteq> j" for j
    using that by (auto simp: column_values_def)
  have pk: "i \<noteq> a" if "positions primary (cols tb) = a # is" for a "is"
  proof -
    have "a \<in> set (positions primary (cols tb))" using that by simp
    then have "primary (cols tb ! a)" by (simp add: positions_conv)
    then show ?thesis using plain(1) by (auto simp: key_col_def)
  qed
  have pv: "primary_values ?d u = primary_values d u" for u
  proof (cases "u = t")
    case True
    then show ?thesis
      using tb cv pk by (cases "positions primary (cols tb)") (auto simp: primary_values_def)
  qed (simp add: primary_values_def)
  have old: "violation E d tb = None" by (rule server_inv_table [OF inv tb])
  have "violation E ?d ?tb = None"
    unfolding violation_None_iff
  proof (intro conjI ballI impI)
    fix r assume "r \<in> set (rows ?tb)"
    then obtain s where s: "s \<in> set (rows tb)" "r = (if P s then s[i := v] else s)" by auto
    then have "row_fits (cols tb) s" using old by (simp add: violation_None_iff)
    with s(2) row_fits_update [OF v] show "row_fits (cols ?tb) r" by simp
  next
    show "unique_ok ?tb"
      unfolding unique_ok_def list_all_iff
    proof (intro ballI impI)
      fix j assume j: "j \<in> set [0..<length (cols ?tb)]" and k: "key_col (cols ?tb ! j)"
      then have "column_values ?tb j = column_values tb j" using plain(1) by (intro cv) auto
      then show "distinct (filter (\<lambda>v. v \<noteq> Null) (column_values ?tb j))"
        using old j k by (simp add: violation_None_iff unique_ok_def list_all_iff)
    qed
  next
    assume "fk_enforced E"
    then have "refs_ok d tb" using old by (simp add: violation_None_iff)
    moreover have "column_values ?tb j = column_values tb j" if "refs (cols tb ! j) \<noteq> None" for j
      using cv plain(2) that by metis
    ultimately show "refs_ok ?d ?tb"
      unfolding refs_ok_def list_all_iff pv by (fastforce split: option.splits)
  qed
  moreover have "violation E ?d x = None" if "d u = Some x" for u x
    using server_inv_table(3) [OF inv that] violation_cong [of ?d d x x E] pv by simp
  ultimately show ?thesis by (auto simp: db_ok_iff)
qed

lemma update_eval:
  assumes inv: "server_inv E sch d" and tb: "d t = Some tb" and i: "find_column (cols tb) n = Some i"
    and plain: "\<not> key_col (cols tb ! i)" "refs (cols tb ! i) = None"
    and v: "coerce E (ctype (cols tb ! i)) (eval_expr now e) = Some v" "v \<noteq> Null"
    and cs: "resolve_all (header_of t) cs = Inr ivs"
  shows "update_set E t n e cs now d =
    (Inr (), d(t \<mapsto> tb\<lparr>rows := map (\<lambda>r. if row_satisfies ivs r then r[i := v] else r) (rows tb)\<rparr>))"
proof -
  have "map (\<lambda>c. (t, cname c)) (cols tb) = header_of t"
    using server_inv_table(1) [OF inv tb] header_sch by simp
  moreover have "i < length (cols tb)" using find_column_Some [OF i] by simp
  ultimately show ?thesis
    using tb i v cs update_violates_nothing [OF inv tb _ plain v(2), of "row_satisfies ivs"]
    by (simp add: update_set_def Let_def db_ok_def)
qed

section \<open>Rows of banned users\<close>

lemma ban_row_shape:
  assumes inv: "server_inv E sch d" and r: "r \<in> set (stored d BannedUsers)"
  obtains i v x where "r = [IntV i, v, x]"
proof -
  have L: "length (sch BannedUsers) = 3" by (simp add: length_sch)
  have len: "length r = 3" using stored_row(1) [OF inv r, of 0] L by simp
  obtain i where i: "r ! 0 = IntV i"
    using stored_row(2,3) [OF inv r, of 0] L backend_schema
    by (auto simp: needs_value_def plain_def elim: well_typed.elims)
  have "r = [r ! 0, r ! 1, r ! 2]"
    using len by (auto simp: list_eq_iff_nth_eq less_Suc_eq numeral_eq_Suc)
  with that i show thesis by metis
qed

lemma resolve_bans:
  "resolve_all (header_of BannedUsers) [(Col ''user_id'', x)] = Inr [(1, x)]"
  by (simp add: header_simps resolve_def)

lemma bans_Some:
  assumes inv: "server_inv E sch d" and one: "single_bans d"
  shows "bans d uid = Some x \<longleftrightarrow> (\<exists>i. [IntV i, IntV uid, x] \<in> set (stored d BannedUsers))"
proof
  assume "bans d uid = Some x"
  then obtain r where "List.find (\<lambda>r. r ! 1 = IntV uid) (stored d BannedUsers) = Some r" "r ! 2 = x"
    by (auto simp: bans_def)
  then have r: "r \<in> set (stored d BannedUsers)" "r ! 1 = IntV uid" "r ! 2 = x"
    by (auto simp: find_Some_iff)
  obtain i v y where "r = [IntV i, v, y]" by (rule ban_row_shape [OF inv r(1)])
  with r show "\<exists>i. [IntV i, IntV uid, x] \<in> set (stored d BannedUsers)" by auto
next
  assume "\<exists>i. [IntV i, IntV uid, x] \<in> set (stored d BannedUsers)"
  then obtain i where m: "[IntV i, IntV uid, x] \<in> set (stored d BannedUsers)" ..
  then have "bans d uid \<noteq> None" by (auto simp: bans_None intro: bexI [OF _ m])
  then obtain r where f: "List.find (\<lambda>r. r ! 1 = IntV uid) (stored d BannedUsers) = Some r"
    by (auto simp: bans_def)
  then have "r \<in> set (stored d BannedUsers)" "r ! 1 = IntV uid" by (auto simp: find_Some_iff)
  then have "r = [IntV i, IntV uid, x]"
    using distinct_map_filter_eq [OF one [unfolded single_bans_def] _ m] by simp
  with f show "bans d uid = Some x" by (simp add: bans_def)
qed

text \<open>An update moves the expiry of one user, an insert adds a user's first row.\<close>

lemma bans_update:
  assumes inv: "server_inv E sch d" and tb: "d BannedUsers = Some tb" and b: "bans d uid \<noteq> None"
    and d': "d' = d(BannedUsers \<mapsto> tb\<lparr>rows :=
      map (\<lambda>r. if row_satisfies [(1, IntV uid)] r then r[2 := x] else r) (rows tb)\<rparr>)"
  shows "bans d' = (bans d)(uid \<mapsto> x)" and "single_bans d' = single_bans d"
proof -
  let ?upd = "\<lambda>r. if row_satisfies [(1, IntV uid)] r then r[2 := x] else r"
  have rs: "stored d BannedUsers = rows tb" using tb by (simp add: stored_def)
  have st: "stored d' BannedUsers = map ?upd (rows tb)" by (simp add: d')
  have key: "?upd r ! 1 = r ! 1" for r by simp
  have new: "bans d' v = map_option (\<lambda>r. ?upd r ! 2) (List.find (\<lambda>r. r ! 1 = IntV v) (rows tb))" for v
    unfolding bans_def st find_map key by (simp add: option.map_comp o_def)
  have "bans d' v = ((bans d)(uid \<mapsto> x)) v" for v
  proof (cases "List.find (\<lambda>r. r ! 1 = IntV v) (rows tb)")
    case None
    then show ?thesis using b new [of v] rs by (auto simp: bans_def)
  next
    case (Some r)
    then have r: "r \<in> set (stored d BannedUsers)" "r ! 1 = IntV v" using rs by (auto simp: find_Some_iff)
    obtain i y z where s: "r = [IntV i, y, z]" by (rule ban_row_shape [OF inv r(1)])
    have "bans d' v = Some (?upd r ! 2)" and "bans d v = Some (r ! 2)"
      using new [of v] Some rs by (simp_all add: bans_def)
    with r(2) s show ?thesis by (simp add: row_satisfies_def sql_eq_def)
  qed
  then show "bans d' = (bans d)(uid \<mapsto> x)" by (rule ext)
  have "map (\<lambda>r. r ! 1) (map ?upd (rows tb)) = map (\<lambda>r. r ! 1) (rows tb)"
    by (simp only: map_map o_def key)
  then show "single_bans d' = single_bans d"
    unfolding single_bans_def st rs by (rule arg_cong)
qed

lemma bans_insert:
  assumes tb: "d BannedUsers = Some tb" and b: "bans d uid = None"
    and d': "d' = d(BannedUsers \<mapsto> with_row tb [IntV i, IntV uid, x])"
  shows "bans d' = (bans d)(uid \<mapsto> x)" and "single_bans d' = single_bans d"
proof -
  have rs: "stored d BannedUsers = rows tb" using tb by (simp add: stored_def)
  have st: "stored d' BannedUsers = rows tb @ [[IntV i, IntV uid, x]]" by (simp add: d')
  have "bans d' v = ((bans d)(uid \<mapsto> x)) v" for v
    using b by (auto simp: bans_def st rs find_append split: option.splits)
  then show "bans d' = (bans d)(uid \<mapsto> x)" by (rule ext)
  have "IntV uid \<notin> set (map (\<lambda>r. r ! 1) (rows tb))"
    using b by (auto simp: bans_None rs)
  then show "single_bans d' = single_bans d"
    unfolding single_bans_def st rs by simp
qed

section \<open>Banning a user\<close>

text \<open>The value that is stored as the new expiry time is accepted by the column.\<close>

abbreviation accepts_expiry :: "int \<Rightarrow> bool" where
  "accepts_expiry e \<equiv> coerce E (ctype (sch BannedUsers ! 2)) (IntV e) = Some (IntV e)"

lemma user_key_stored:
  assumes inv: "server_inv E sch d" and u: "directory d u = Some (uid, k, a)"
  shows "IntV uid \<in> set (primary_values d Users)"
proof -
  obtain tb where tb: "d Users = Some tb" "cols tb = sch Users" "stored d Users = rows tb"
    by (rule stored_table [OF inv])
  from u obtain v where "[IntV uid, TextV u, TextV k, v] \<in> set (rows tb)"
    using tb(3) by (auto simp: directory_Some [OF inv])
  then have "IntV uid \<in> set (column_values tb 0)"
    by (force simp: column_values_def)
  moreover have "positions primary (cols tb) = [0]"
    using tb(2) backend_schema by (auto simp: plain_def)
  ultimately show ?thesis using tb(1) by (simp add: primary_values_def)
qed

lemma insert_ban:
  assumes inv: "server_inv E sch d" and tb: "d BannedUsers = Some tb"
    and u: "IntV uid \<in> set (primary_values d Users)" "int32 uid"
    and e: "accepts_expiry (now + s)"
  defines "eid \<equiv> next_id tb 0"
  shows "insert_into E BannedUsers [(''user_id'', Val (IntV uid)), (''expire'', NowPlus s)] now d =
    (if \<not> int32 eid then (Inl SequenceExhausted, d(BannedUsers \<mapsto> bump tb))
     else (Inr (), d(BannedUsers \<mapsto> with_row tb [IntV eid, IntV uid, IntV (now + s)])))"
proof -
  have cols: "cols tb = sch BannedUsers" by (rule server_inv_table [OF inv tb])
  let ?bs = "[(''user_id'', IntV uid), (''expire'', IntV (now + s))]"
  have as: "assign_all E now (cols tb) [(''user_id'', Val (IntV uid)), (''expire'', NowPlus s)] = Inr ?bs"
    using backend_schema cols coerce_int [OF u(2)] e
    by (auto simp: find_column_def plain_def numeral_eq_Suc)
  have auto: "auto_col (sch BannedUsers ! 0)" "0 < length (sch BannedUsers)"
    using backend_schema by (auto simp: auto_col_def plain_def)
  have br: "build_row E now tb ?bs [0..<length (cols tb)] =
      (if int32 eid then Inr [IntV eid, IntV uid, IntV (now + s)] else Inl SequenceExhausted)"
    using backend_schema cols key_next_id [OF inv tb auto(2,1), of now]
    by (auto simp: cell_def plain_def eid_def)
  have fresh: "IntV eid \<notin> set (column_values tb 0)"
    unfolding eid_def by (rule next_id_fresh [OF inv tb auto(2,1)])
  show ?thesis
  proof (cases "int32 eid")
    case False
    with tb as br show ?thesis by (simp add: insert_into_def)
  next
    case True
    let ?r = "[IntV eid, IntV uid, IntV (now + s)]"
    have "IntV uid \<in> set (primary_values (d(BannedUsers \<mapsto> with_row tb ?r)) Users)"
      using u(1) by (simp add: primary_values_def)
    then have "row_violation E (d(BannedUsers \<mapsto> with_row tb ?r)) tb ?r = None"
      using backend_schema cols fresh
      by (auto simp: row_violation_def row_fits_def key_col_def plain_def less_Suc_eq numeral_eq_Suc
          simp del: fun_upd_apply)
    with True insert_eval [OF inv tb as] br show ?thesis by simp
  qed
qed

lemma update_ban:
  assumes inv: "server_inv E sch d" and tb: "d BannedUsers = Some tb" and e: "accepts_expiry (now + s)"
  shows "update_set E BannedUsers ''expire'' (NowPlus s) [(Col ''user_id'', IntV uid)] now d =
    (Inr (), d(BannedUsers \<mapsto> tb\<lparr>rows :=
      map (\<lambda>r. if row_satisfies [(1, IntV uid)] r then r[2 := IntV (now + s)] else r) (rows tb)\<rparr>))"
proof (rule update_eval [OF inv tb _ _ _ _ _ resolve_bans])
  have cols: "cols tb = sch BannedUsers" by (rule server_inv_table [OF inv tb])
  show "find_column (cols tb) ''expire'' = Some 2" "\<not> key_col (cols tb ! 2)" "refs (cols tb ! 2) = None"
    using backend_schema cols by (auto simp: find_column_def key_col_def plain_def)
  show "coerce E (ctype (cols tb ! 2)) (eval_expr now (NowPlus s)) = Some (IntV (now + s))"
    using e cols by simp
qed simp

lemma ban_rows:
  assumes inv: "server_inv E sch d"
  shows "filter (row_satisfies [(1, IntV uid)]) (stored d BannedUsers) = [] \<longleftrightarrow> bans d uid = None"
  by (auto simp: filter_empty_conv bans_None row_satisfies_def sql_eq_def)

lemma read_uid:
  assumes inv: "server_inv E sch d" and u: "directory d u = Some (uid, k, a)"
  obtains R where "select_from E Users [(Col ''uname'', TextV u)] d = Inr R" "got_data R"
    "into_int E R ''user_id'' x = Inr uid"
proof -
  let ?S = "filter (row_satisfies [(1, TextV u)]) (stored d Users)"
  obtain v where m: "[IntV uid, TextV u, TextV k, v] \<in> set (stored d Users)"
    using u by (auto simp: directory_Some [OF inv])
  then have "[IntV uid, TextV u, TextV k, v] \<in> set (scan E ?S)"
    by (simp add: row_satisfies_def sql_eq_def)
  then obtain r rs where rs: "scan E ?S = r # rs" by (metis empty_iff empty_set neq_Nil_conv)
  then have "r \<in> set (scan E ?S)" by simp
  then have "r \<in> set (stored d Users)" "r ! 1 = TextV u"
    unfolding set_scan by (auto simp: row_satisfies_def sql_eq_def)
  then have "r = [IntV uid, TextV u, TextV k, v]" using user_unique [OF inv _ m] by simp
  with rs show thesis
    using select_from_eq [OF server_inv_installed [OF inv] resolve_users(3)]
    by (intro that [of "(header_of Users, scan E ?S)"])
       (simp_all add: into_int_def resolve_users soci_int_IntV got_data_def)
qed

lemma read_no_uid:
  assumes inv: "server_inv E sch d" and u: "directory d u = None"
  shows "select_from E Users [(Col ''uname'', TextV u)] d = Inr (header_of Users, [])"
proof -
  have "filter (row_satisfies [(1, TextV u)]) (stored d Users) = []"
    using u by (auto simp: filter_empty_conv directory_None row_satisfies_def sql_eq_def)
       (metis image_eqI)
  then show ?thesis
    using select_from_eq [OF server_inv_installed [OF inv] resolve_users(3) [of "TextV u"]] scan_Nil_iff
    by simp
qed

lemma banUser_unknown:
  assumes inv: "server_inv E sch (tabs w)" and up: "session_up E (sessions w)"
    and u: "directory (tabs w) u = None" and s: "ban_span days = Inr s"
  shows "pg_banUser E u days w =
    (Inl UserNotFound, w\<lparr>sessions := Suc (sessions w), ticks := Suc (ticks w)\<rparr>)"
  using read_no_uid [OF inv u] s
  by (simp add: pg_banUser_def bind_io_def session_ok [OF up] query_def got_data_def)

text \<open>\<^verbatim>\<open>banUser\<close>, evaluated for a known user.\<close>

lemma banUser_run:
  assumes inv: "server_inv E sch (tabs w)" and up: "session_up E (sessions w)"
    and u: "directory (tabs w) u = Some (uid, k, a)" "int32 uid" and s: "ban_span days = Inr s"
    and e: "accepts_expiry (clock E (ticks w + 2) + s)"
    and id: "\<And>tb. tabs w BannedUsers = Some tb \<Longrightarrow> int32 (next_id tb 0)"
  obtains w' where "pg_banUser E u days w = (Inr (), w')"
    and "bans (tabs w') = (bans (tabs w))(uid \<mapsto> IntV (clock E (ticks w + 2) + s))"
    and "single_bans (tabs w') = single_bans (tabs w)"
    and "\<forall>t. t \<noteq> BannedUsers \<longrightarrow> tabs w' t = tabs w t"
proof -
  let ?d = "tabs w" and ?now = "clock E (ticks w + 2)"
  obtain R where R: "select_from E Users [(Col ''uname'', TextV u)] ?d = Inr R" "got_data R"
      "into_int E R ''user_id'' 0 = Inr uid"
    by (rule read_uid [OF inv u(1)])
  obtain tb where tb: "?d BannedUsers = Some tb" by (rule stored_table [OF inv])
  let ?w = "w\<lparr>sessions := Suc (sessions w), ticks := ticks w + 2\<rparr>"
  have sel: "select_from E BannedUsers [(Col ''user_id'', IntV uid)] ?d =
      Inr (header_of BannedUsers, scan E (filter (row_satisfies [(1, IntV uid)]) (stored ?d BannedUsers)))"
    by (rule select_from_eq [OF server_inv_installed [OF inv] resolve_bans])
  have steps: "pg_banUser E u days w =
    (if bans ?d uid \<noteq> None
     then exec E (update_set E BannedUsers ''expire'' (NowPlus s) [(Col ''user_id'', IntV uid)]) ?w
     else exec E (insert_into E BannedUsers [(''user_id'', Val (IntV uid)), (''expire'', NowPlus s)]) ?w)"
    using R s ban_rows [OF inv, of uid]
    by (cases "bans ?d uid")
       (simp_all add: pg_banUser_def bind_io_def session_ok [OF up] query_def sel got_data_def)
  show thesis
  proof (cases "bans ?d uid")
    case None
    let ?d' = "?d(BannedUsers \<mapsto> with_row tb [IntV (next_id tb 0), IntV uid, IntV (?now + s)])"
    have "pg_banUser E u days w = (Inr (), ?w\<lparr>tabs := ?d', ticks := Suc (ticks w + 2)\<rparr>)"
      using steps None insert_ban [OF inv tb user_key_stored [OF inv u(1)] u(2) e] id [OF tb]
      by (simp add: exec_def)
    then show thesis
      by (rule that) (use bans_insert [OF tb None refl] in simp_all)
  next
    case (Some y)
    let ?d' = "?d(BannedUsers \<mapsto> tb\<lparr>rows :=
      map (\<lambda>r. if row_satisfies [(1, IntV uid)] r then r[2 := IntV (?now + s)] else r) (rows tb)\<rparr>)"
    have "pg_banUser E u days w = (Inr (), ?w\<lparr>tabs := ?d', ticks := Suc (ticks w + 2)\<rparr>)"
      using steps Some update_ban [OF inv tb e] by (simp add: exec_def)
    then show thesis
      by (rule that) (use bans_update [OF inv tb _ refl] Some in simp_all)
  qed
qed

section \<open>Looking up a ban\<close>

lemma select_join_eq:
  assumes "installed sch d" and "resolve (header_of t @ header_of u) a = Inr i"
    and "resolve (header_of t @ header_of u) b = Inr j"
    and "resolve_all (header_of t @ header_of u) cs = Inr ivs"
  shows "select_join E t u a b cs d = Inr (header_of t @ header_of u,
    scan E (filter (row_satisfies ivs) (filter (\<lambda>r. sql_eq (r ! i) (r ! j))
      [x @ y. x \<leftarrow> stored d t, y \<leftarrow> stored d u])))"
  using assms
  by (simp add: select_join_def base_eq inner_join_def where_clause_def scanned_def Let_def)

lemma resolve_ban_join:
  "resolve (header_of BannedUsers @ header_of Users) (QCol Users ''user_id'') = Inr 3"
  "resolve (header_of BannedUsers @ header_of Users) (QCol BannedUsers ''user_id'') = Inr 1"
  "resolve_all (header_of BannedUsers @ header_of Users) [(Col ''uname'', x)] = Inr [(4, x)]"
  "resolve (header_of BannedUsers @ header_of Users) (Col ''expire'') = Inr 2"
  by (simp_all add: header_simps resolve_def numeral_eq_Suc)

abbreviation ban_join :: "db \<Rightarrow> string \<Rightarrow> sqlval list list" where
  "ban_join d u \<equiv> filter (row_satisfies [(4, TextV u)]) (filter (\<lambda>r. sql_eq (r ! 3) (r ! 1))
      [x @ y. x \<leftarrow> stored d BannedUsers, y \<leftarrow> stored d Users])"

lemma ban_join_rows:
  assumes inv: "server_inv E sch d" and one: "single_bans d"
  shows "(\<exists>r \<in> set (ban_join d u). r ! 2 = x) \<longleftrightarrow> user_ban d u = Some x"
proof
  assume "\<exists>r \<in> set (ban_join d u). r ! 2 = x"
  then obtain b y where b: "b \<in> set (stored d BannedUsers)" and y: "y \<in> set (stored d Users)"
    and r: "row_satisfies [(4, TextV u)] (b @ y)" "sql_eq ((b @ y) ! 3) ((b @ y) ! 1)" "(b @ y) ! 2 = x"
    by auto
  obtain i v z where b': "b = [IntV i, v, z]" by (rule ban_row_shape [OF inv b])
  obtain uid u' k a where y': "y = [IntV uid, TextV u', TextV k, a]" by (rule user_row_shape [OF inv y])
  from r b' y' have "v = IntV uid" "u' = u" "z = x" by (auto simp: row_satisfies_def sql_eq_def)
  with b b' y y' have "bans d uid = Some x" "directory d u = Some (uid, k, a = IntV 1)"
    by (auto simp: bans_Some [OF inv one] directory_Some [OF inv])
  then show "user_ban d u = Some x" by (simp add: user_ban_def)
next
  assume "user_ban d u = Some x"
  then obtain uid k adm where "directory d u = Some (uid, k, adm)" "bans d uid = Some x"
    by (auto simp: user_ban_def split: option.splits)
  then obtain a i where y: "[IntV uid, TextV u, TextV k, a] \<in> set (stored d Users)"
    and b: "[IntV i, IntV uid, x] \<in> set (stored d BannedUsers)"
    by (auto simp: bans_Some [OF inv one] directory_Some [OF inv])
  let ?r = "[IntV i, IntV uid, x] @ [IntV uid, TextV u, TextV k, a]"
  have "?r \<in> set [x @ y. x \<leftarrow> stored d BannedUsers, y \<leftarrow> stored d Users]"
    using join_mem [THEN iffD2] b y by blast
  then have "?r \<in> set (ban_join d u)"
    by (simp add: row_satisfies_def sql_eq_def)
  moreover have "?r ! 2 = x" by simp
  ultimately show "\<exists>r \<in> set (ban_join d u). r ! 2 = x" by blast
qed

lemma ban_lookup:
  assumes inv: "server_inv E sch d" and one: "single_bans d"
  shows "bind_sum (select_join E BannedUsers Users (QCol Users ''user_id'') (QCol BannedUsers ''user_id'')
       [(Col ''uname'', TextV u)] d) (\<lambda>R. into_tm E R ''expire'') =
     (case user_ban d u of None \<Rightarrow> Inr None | Some x \<Rightarrow> bind_sum (soci_tm E x) (\<lambda>t. Inr (Some t)))"
proof -
  define J where "J = ban_join d u"
  have sel: "select_join E BannedUsers Users (QCol Users ''user_id'') (QCol BannedUsers ''user_id'')
       [(Col ''uname'', TextV u)] d = Inr (header_of BannedUsers @ header_of Users, scan E J)"
    unfolding J_def by (rule select_join_eq [OF server_inv_installed [OF inv] resolve_ban_join(1-3)])
  show ?thesis
  proof (cases "scan E J")
    case Nil
    then have "ban_join d u = []" by (simp only: scan_Nil_iff J_def)
    then have "user_ban d u = None"
      using ban_join_rows [OF inv one, of u] by (cases "user_ban d u") auto
    then show ?thesis by (simp add: sel into_tm_def resolve_ban_join Nil)
  next
    case (Cons r rs)
    then have "r \<in> set J" by (metis list.set_intros(1) set_scan)
    then have "user_ban d u = Some (r ! 2)"
      using ban_join_rows [OF inv one, of u "r ! 2"] unfolding J_def by blast
    with Cons show ?thesis by (simp add: sel into_tm_def resolve_ban_join)
  qed
qed

lemma isUserBanned_run:
  assumes inv: "server_inv E sch (tabs w)" and one: "single_bans (tabs w)"
    and up: "session_up E (sessions w)"
  defines "w1 \<equiv> w\<lparr>sessions := Suc (sessions w), ticks := Suc (ticks w)\<rparr>"
  shows "user_ban (tabs w) u = None \<Longrightarrow> pg_isUserBanned E u ip w = (Inr False, w1)"
    and "user_ban (tabs w) u = Some x \<Longrightarrow> soci_tm E x = Inr t \<Longrightarrow> c_mktime E t < clock E (Suc (ticks w)) \<Longrightarrow>
      pg_isUserBanned E u ip w = (Inl UndefinedColumn, w1\<lparr>ticks := ticks w + 3\<rparr>)"
    and "user_ban (tabs w) u = Some x \<Longrightarrow> soci_tm E x = Inr t \<Longrightarrow> clock E (Suc (ticks w)) \<le> c_mktime E t \<Longrightarrow>
      pg_isUserBanned E u ip w = bind_io (pg_isIPBanned E ip) (\<lambda>b.
              if \<not> b
              then bind_io (exec E (insert_into E BannedIps
                     [(''ip'', Val (TextV ip)), (''expire'', Val (TimeV t))])) (\<lambda>_. ret True)
              else ret True) (w1\<lparr>ticks := ticks w + 2\<rparr>)"
proof -
  have del: "delete_from E BannedUsers [(Col ''uname'', TextV u)] now (tabs w) = (Inl UndefinedColumn, tabs w)" for now
  proof -
    obtain tb where "tabs w BannedUsers = Some tb" "cols tb = sch BannedUsers" by (rule stored_table [OF inv])
    then show ?thesis
      by (simp add: delete_from_def header_sch header_simps resolve_def)
  qed
  show "user_ban (tabs w) u = None \<Longrightarrow> pg_isUserBanned E u ip w = (Inr False, w1)"
    by (simp add: pg_isUserBanned_def bind_io_def session_ok [OF up] query_def ban_lookup [OF inv one] w1_def)
  show "user_ban (tabs w) u = Some x \<Longrightarrow> soci_tm E x = Inr t \<Longrightarrow> c_mktime E t < clock E (Suc (ticks w)) \<Longrightarrow>
      pg_isUserBanned E u ip w = (Inl UndefinedColumn, w1\<lparr>ticks := ticks w + 3\<rparr>)"
    by (simp add: pg_isUserBanned_def bind_io_def session_ok [OF up] query_def ban_lookup [OF inv one]
        read_clock_def exec_def del w1_def)
  show "user_ban (tabs w) u = Some x \<Longrightarrow> soci_tm E x = Inr t \<Longrightarrow> clock E (Suc (ticks w)) \<le> c_mktime E t \<Longrightarrow>
      pg_isUserBanned E u ip w = bind_io (pg_isIPBanned E ip) (\<lambda>b.
              if \<not> b
              then bind_io (exec E (insert_into E BannedIps
                     [(''ip'', Val (TextV ip)), (''expire'', Val (TimeV t))])) (\<lambda>_. ret True)
              else ret True) (w1\<lparr>ticks := ticks w + 2\<rparr>)"
    by (simp add: pg_isUserBanned_def bind_io_def [of "getSociSession E"] bind_io_def [of "query E _"]
        bind_io_def [of "read_clock E"] session_ok [OF up] query_def ban_lookup [OF inv one]
        read_clock_def w1_def)
qed

section \<open>Banned addresses\<close>

text \<open>Deleting rows of a table that nothing refers to breaks no constraint.\<close>

lemma delete_violates_nothing:
  assumes inv: "server_inv E sch d" and tb: "d t = Some tb"
    and free: "\<And>u i. i < length (sch u) \<Longrightarrow> refs (sch u ! i) \<noteq> Some t"
  shows "db_ok E (d(t \<mapsto> tb\<lparr>rows := filter P (rows tb)\<rparr>))" (is "db_ok E ?d")
  unfolding db_ok_iff
proof (intro allI impI)
  fix u x assume "?d u = Some x"
  then obtain y where y: "d u = Some y" "cols x = cols y" "set (rows x) \<subseteq> set (rows y)"
    and sub: "rows x = rows y \<or> rows x = filter P (rows y)"
    using tb by (cases "u = t") auto
  have cols: "cols y = sch u" and old: "violation E d y = None"
    by (rule server_inv_table [OF inv y(1)])+
  have pv: "primary_values ?d v = primary_values d v" if "v \<noteq> t" for v
    using that by (simp add: primary_values_def)
  have "unique_ok x"
    unfolding unique_ok_def list_all_iff
  proof (intro ballI impI)
    fix j assume j: "j \<in> set [0..<length (cols x)]" and k: "key_col (cols x ! j)"
    then have "distinct (filter (\<lambda>v. v \<noteq> Null) (map (\<lambda>r. r ! j) (rows y)))"
      using old y(2) by (simp add: violation_None_iff unique_ok_def list_all_iff column_values_def)
    then show "distinct (filter (\<lambda>v. v \<noteq> Null) (column_values x j))"
      using sub by (auto simp: column_values_def intro: distinct_filter_rows)
  qed
  moreover have "refs_ok ?d x" if "refs_ok d y"
    using that y(2,3) free cols pv
    by (fastforce simp: refs_ok_def list_all_iff column_values_def split: option.splits)
  ultimately show "violation E ?d x = None"
    using old y(2,3) by (auto simp: violation_None_iff)
qed

lemma resolve_ips:
  "resolve_all (header_of BannedIps) [(Col ''ip'', x)] = Inr [(1, x)]"
  "resolve (header_of BannedIps) (Col ''expire'') = Inr 2"
  by (simp_all add: header_simps resolve_def)

lemma ip_unique:
  assumes "server_inv E sch d" and "r \<in> set (stored d BannedIps)" and "r' \<in> set (stored d BannedIps)"
    and "r ! 1 = TextV ip" and "r' ! 1 = TextV ip"
  shows "r = r'"
proof (rule stored_unique [OF assms(1) _ _ assms(2,3)])
  show "1 < length (sch BannedIps)" by (simp add: length_sch)
  show "key_col (sch BannedIps ! 1)" using backend_schema by (auto simp: key_col_def plain_def)
qed (use assms(4,5) in simp_all)

lemma ip_bans_Some:
  assumes inv: "server_inv E sch d"
  shows "ip_bans d ip = Some x \<longleftrightarrow> (\<exists>r \<in> set (stored d BannedIps). r ! 1 = TextV ip \<and> r ! 2 = x)"
proof
  assume "ip_bans d ip = Some x"
  then show "\<exists>r \<in> set (stored d BannedIps). r ! 1 = TextV ip \<and> r ! 2 = x"
    by (auto simp: ip_bans_def find_Some_iff)
next
  assume "\<exists>r \<in> set (stored d BannedIps). r ! 1 = TextV ip \<and> r ! 2 = x"
  then obtain r where r: "r \<in> set (stored d BannedIps)" "r ! 1 = TextV ip" "r ! 2 = x" by blast
  then have "List.find (\<lambda>r. r ! 1 = TextV ip) (stored d BannedIps) \<noteq> None"
    by (auto simp: find_None_iff)
  then obtain q where f: "List.find (\<lambda>r. r ! 1 = TextV ip) (stored d BannedIps) = Some q" by auto
  then have "q \<in> set (stored d BannedIps)" "q ! 1 = TextV ip" by (auto simp: find_Some_iff)
  then have "q = r" using ip_unique [OF inv _ r(1) _ r(2)] by simp
  with f r(3) show "ip_bans d ip = Some x" by (simp add: ip_bans_def)
qed

lemma ip_lookup:
  assumes inv: "server_inv E sch d"
  shows "bind_sum (select_from E BannedIps [(Col ''ip'', TextV ip)] d) (\<lambda>R. into_tm E R ''expire'') =
     (case ip_bans d ip of None \<Rightarrow> Inr None | Some x \<Rightarrow> bind_sum (soci_tm E x) (\<lambda>t. Inr (Some t)))"
proof -
  define S where "S = filter (row_satisfies [(1, TextV ip)]) (stored d BannedIps)"
  have mem: "r \<in> set S \<longleftrightarrow> r \<in> set (stored d BannedIps) \<and> r ! 1 = TextV ip" for r
    by (auto simp: S_def row_satisfies_def sql_eq_def)
  have sel: "select_from E BannedIps [(Col ''ip'', TextV ip)] d = Inr (header_of BannedIps, scan E S)"
    unfolding S_def by (rule select_from_eq [OF server_inv_installed [OF inv] resolve_ips(1)])
  show ?thesis
  proof (cases "scan E S")
    case Nil
    then have "S = []" by (simp only: scan_Nil_iff)
    then have "ip_bans d ip = None"
      using mem by (cases "ip_bans d ip") (auto simp: ip_bans_Some [OF inv])
    then show ?thesis by (simp add: sel into_tm_def resolve_ips Nil)
  next
    case (Cons r rs)
    then have "r \<in> set S" by (metis list.set_intros(1) set_scan)
    then have "ip_bans d ip = Some (r ! 2)" by (auto simp: mem ip_bans_Some [OF inv])
    with Cons show ?thesis by (simp add: sel into_tm_def resolve_ips)
  qed
qed

lemma delete_ip:
  assumes inv: "server_inv E sch d"
  obtains d' where "delete_from E BannedIps [(Col ''ip'', TextV ip)] now d = (Inr (), d')"
    and "ip_bans d' = (ip_bans d)(ip := None)" and "\<forall>t. t \<noteq> BannedIps \<longrightarrow> d' t = d t"
proof -
  obtain tb where tb: "d BannedIps = Some tb" "cols tb = sch BannedIps" "stored d BannedIps = rows tb"
    by (rule stored_table [OF inv])
  let ?P = "\<lambda>r. \<not> row_satisfies [(1, TextV ip)] r"
  let ?d = "d(BannedIps \<mapsto> tb\<lparr>rows := filter ?P (rows tb)\<rparr>)"
  have "db_ok E ?d"
    by (rule delete_violates_nothing [OF inv tb(1)])
       (use backend_schema no_refs_to_ips in auto)
  then have "delete_from E BannedIps [(Col ''ip'', TextV ip)] now d = (Inr (), ?d)"
    by (simp add: delete_from_def tb header_sch resolve_ips db_ok_def Let_def del: resolve_all.simps)
  moreover have "List.find (\<lambda>r. r ! 1 = TextV v) (filter ?P rs) =
      (if v = ip then None else List.find (\<lambda>r. r ! 1 = TextV v) rs)" for v rs
    by (induction rs) (auto simp: row_satisfies_def sql_eq_def)
  then have "ip_bans ?d = (ip_bans d)(ip := None)"
    by (auto simp: ip_bans_def tb(3))
  ultimately show thesis by (intro that [of ?d]) simp_all
qed

text \<open>\<^verbatim>\<open>isIPBanned\<close>, evaluated.\<close>

lemma isIPBanned_run:
  assumes inv: "server_inv E sch (tabs w)" and up: "session_up E (sessions w)"
  shows "ip_bans (tabs w) ip = None \<Longrightarrow>
      \<exists>w'. pg_isIPBanned E ip w = (Inr False, w') \<and> tabs w' = tabs w"
    and "ip_bans (tabs w) ip = Some x \<Longrightarrow> soci_tm E x = Inr t \<Longrightarrow> clock E (Suc (ticks w)) \<le> c_mktime E t \<Longrightarrow>
      \<exists>w'. pg_isIPBanned E ip w = (Inr True, w') \<and> tabs w' = tabs w"
    and "ip_bans (tabs w) ip = Some x \<Longrightarrow> soci_tm E x = Inr t \<Longrightarrow> c_mktime E t < clock E (Suc (ticks w)) \<Longrightarrow>
      \<exists>w'. pg_isIPBanned E ip w = (Inr False, w') \<and> ip_bans (tabs w') = (ip_bans (tabs w))(ip := None) \<and>
        (\<forall>t. t \<noteq> BannedIps \<longrightarrow> tabs w' t = tabs w t)"
proof -
  obtain d' where d': "delete_from E BannedIps [(Col ''ip'', TextV ip)] (clock E (Suc (Suc (ticks w)))) (tabs w) = (Inr (), d')"
    "ip_bans d' = (ip_bans (tabs w))(ip := None)" "\<forall>t. t \<noteq> BannedIps \<longrightarrow> d' t = tabs w t"
    by (rule delete_ip [OF inv])
  note run = pg_isIPBanned_def bind_io_def session_ok [OF up] query_def ip_lookup [OF inv] read_clock_def exec_def
  show "ip_bans (tabs w) ip = None \<Longrightarrow>
      \<exists>w'. pg_isIPBanned E ip w = (Inr False, w') \<and> tabs w' = tabs w"
    by (simp add: run)
  show "ip_bans (tabs w) ip = Some x \<Longrightarrow> soci_tm E x = Inr t \<Longrightarrow> clock E (Suc (ticks w)) \<le> c_mktime E t \<Longrightarrow>
      \<exists>w'. pg_isIPBanned E ip w = (Inr True, w') \<and> tabs w' = tabs w"
    by (simp add: run)
  show "ip_bans (tabs w) ip = Some x \<Longrightarrow> soci_tm E x = Inr t \<Longrightarrow> c_mktime E t < clock E (Suc (ticks w)) \<Longrightarrow>
      \<exists>w'. pg_isIPBanned E ip w = (Inr False, w') \<and> ip_bans (tabs w') = (ip_bans (tabs w))(ip := None) \<and>
        (\<forall>t. t \<noteq> BannedIps \<longrightarrow> tabs w' t = tabs w t)"
    using d' by (simp add: run)
qed

end

end
