(* ===== verification/Engines.thy ===== *)
theory Engines
  imports Bans
begin

text \<open>
  The two back ends of the program. \<open>postgres_env\<close> and \<open>sqlite_env\<close> are engines with
  the documented behaviour of the two databases as far as the code depends on it: PostgreSQL checks
  types, lengths, ranges and foreign keys; SQLite stores what it is given and, by default, does not
  check foreign keys. What differs between installations (the clock, which connections fail, the
  time zone, the state of a \<^verbatim>\<open>soci::row\<close> without data) is an argument. Both interpret
  the locale \<open>backend\<close>, and \<open>deployment\<close> names the combinations of engine, schema and
  method table that the program runs with.
\<close>

section \<open>Engines\<close>

fun pg_coerce :: "coltype \<Rightarrow> sqlval \<Rightarrow> sqlval option" where
  "pg_coerce c Null = Some Null"
| "pg_coerce (Varchar k) (TextV s) = (if utf8_length s \<le> k then Some (TextV s) else None)"
| "pg_coerce TextT (TextV s) = Some (TextV s)"
| "pg_coerce BoolT (IntV n) = (if n = 0 \<or> n = 1 then Some (IntV n) else None)"
| "pg_coerce Serial (IntV n) = (if int32 n then Some (IntV n) else None)"
| "pg_coerce RowId (IntV n) = (if int32 n then Some (IntV n) else None)"
| "pg_coerce IntT (IntV n) = (if int32 n then Some (IntV n) else None)"
| "pg_coerce DateT (TimeV t) = Some (TimeV t)"
| "pg_coerce _ _ = None"

fun fetch_int :: "sqlval \<Rightarrow> exn + int" where
  "fetch_int (IntV n) = Inr n"
| "fetch_int Null = Inl NullValue"
| "fetch_int _ = Inl BadCast"

fun fetch_string :: "sqlval \<Rightarrow> exn + string" where
  "fetch_string (TextV s) = Inr s"
| "fetch_string Null = Inl NullValue"
| "fetch_string _ = Inl BadCast"

fun fetch_tm :: "sqlval \<Rightarrow> exn + tm" where
  "fetch_tm (TimeV t) = Inr t"
| "fetch_tm Null = Inl NullValue"
| "fetch_tm _ = Inl BadCast"

definition postgres_env ::
  "(nat \<Rightarrow> int) \<Rightarrow> (nat \<Rightarrow> bool) \<Rightarrow> (tm \<Rightarrow> int) \<Rightarrow> bool \<Rightarrow> exn + string \<Rightarrow> env" where
  "postgres_env clk up mk nul name = \<lparr>coerce = pg_coerce, fk_enforced = True, scan = (\<lambda>rs. rs),
     clock = clk, session_up = up, soci_int = fetch_int, soci_string = fetch_string,
     soci_tm = fetch_tm, no_row_null = nul, no_row_name = name, c_mktime = mk,
     pb_flag = (\<lambda>n. n), pick_column = hd\<rparr>"

definition sqlite_env ::
  "(nat \<Rightarrow> int) \<Rightarrow> (nat \<Rightarrow> bool) \<Rightarrow> (tm \<Rightarrow> int) \<Rightarrow> bool \<Rightarrow> exn + string \<Rightarrow> env" where
  "sqlite_env clk up mk nul name =
     (postgres_env clk up mk nul name)\<lparr>coerce := (\<lambda>c v. Some v), fk_enforced := False\<rparr>"

lemma env_simps [simp]:
  "coerce (postgres_env clk up mk nul name) = pg_coerce"
  "fk_enforced (postgres_env clk up mk nul name) = True"
  "scan (postgres_env clk up mk nul name) = (\<lambda>rs. rs)"
  "clock (postgres_env clk up mk nul name) = clk"
  "session_up (postgres_env clk up mk nul name) = up"
  "soci_int (postgres_env clk up mk nul name) = fetch_int"
  "soci_string (postgres_env clk up mk nul name) = fetch_string"
  "soci_tm (postgres_env clk up mk nul name) = fetch_tm"
  "no_row_null (postgres_env clk up mk nul name) = nul"
  "no_row_name (postgres_env clk up mk nul name) = name"
  "c_mktime (postgres_env clk up mk nul name) = mk"
  "pb_flag (postgres_env clk up mk nul name) = (\<lambda>n. n)"
  "pick_column (postgres_env clk up mk nul name) = hd"
  by (simp_all add: postgres_env_def)

lemma pg_coerce_typed: "pg_coerce c v = Some v' \<Longrightarrow> v' = v \<and> well_typed c v"
  by (cases "(c, v)" rule: pg_coerce.cases) (auto split: if_splits)

interpretation postgres: backend "postgres_env clk up mk nul name" pg_schema
  for clk up mk nul name
  by unfold_locales (auto dest: pg_coerce_typed)

interpretation sqlite: backend "sqlite_env clk up mk nul name" sqlite_schema
  for clk up mk nul name
  by unfold_locales (auto simp: sqlite_env_def)

section \<open>Deployments\<close>

definition deployment :: "env \<Rightarrow> (tabname \<Rightarrow> column list) \<Rightarrow> db_interface \<Rightarrow> bool" where
  "deployment E sch db \<longleftrightarrow> backend E sch \<and>
     (sch = pg_schema \<and> db = pg_db E \<or> sch = sqlite_schema \<and> db = sqlite_db E)"

lemma deployment_backend: "deployment E sch db \<Longrightarrow> backend E sch"
  by (simp add: deployment_def)

text \<open>The method tables differ in \<^verbatim>\<open>validate\<close> only: the override of
  \<^verbatim>\<open>banUser\<close> runs the same statements.\<close>

lemma deployment_db:
  assumes "deployment E sch db"
  shows "db = (pg_db E)\<lparr>validate := validate db\<rparr>"
proof -
  have "sqlite_banUser E = pg_banUser E"
    by (rule backend.sqlite_banUser_eq [OF deployment_backend [OF assms]])
  then show ?thesis using assms by (auto simp: deployment_def sqlite_db_def pg_db_def)
qed

lemma deployment_methods:
  assumes "deployment E sch db"
  shows "clear db = db_clear E" "isUserValid db = pg_isUserValid E" "isUserAdmin db = pg_isUserAdmin E"
    "isUserModerator db = pg_isUserModerator E" "isUserBanned db = pg_isUserBanned E"
    "isIPBanned db = pg_isIPBanned E" "banUser db = pg_banUser E" "createUser db = pg_createUser E"
    "createChannel db = pg_createChannel E" "createCommunity db = pg_createCommunity E"
    "getCommunityRowset db = pg_getCommunityRowset E"
    "getCommunityChannelsRowset db = pg_getCommunityChannelsRowset E"
    "getChannelMessages db = pg_getChannelMessages E" "getChannelRow db = pg_getChannelRow E"
  by (subst deployment_db [OF assms], simp add: pg_db_def)+

lemma deployment_postgres:
  "deployment (postgres_env clk up mk nul name) pg_schema (pg_db (postgres_env clk up mk nul name))"
  by (simp add: deployment_def postgres.backend_axioms)

lemma deployment_sqlite:
  "deployment (sqlite_env clk up mk nul name) sqlite_schema (sqlite_db (sqlite_env clk up mk nul name))"
  by (simp add: deployment_def sqlite.backend_axioms)

lemma deployment_validate:
  assumes "deployment E sch db"
  shows "validate db = bind_io (getSociSession E) (\<lambda>_. run_all
     (map (\<lambda>t. exec E (create_table E t (sch t))) all_tables))"
  using assms by (auto simp: deployment_def pg_db_def sqlite_db_def pg_validate_conv sqlite_validate_conv)

lemma deployment_refs: "deployment E sch db \<Longrightarrow> refs_closed sch {} all_tables"
  by (auto simp: deployment_def pg_refs_closed sqlite_refs_closed)

lemma deployment_drops: "deployment E sch db \<Longrightarrow> drop_closed sch {} drop_order"
  by (auto simp: deployment_def pg_drop_closed sqlite_drop_closed)

section \<open>A running server, for examples\<close>

definition pg0 :: env where
  "pg0 = postgres_env (\<lambda>n. 1600000000 + int n) (\<lambda>_. True) (\<lambda>_. 0) True (Inl NullValue)"

definition no_tables :: world where
  "no_tables = \<lparr>tabs = (\<lambda>_. None), sessions = 0, ticks = 0\<rparr>"

definition pg_start :: world where
  "pg_start = \<lparr>tabs = created pg_schema UNIV (\<lambda>_. None), sessions = 1, ticks = 7\<rparr>"

lemma pg0_simps [simp]:
  "coerce pg0 = pg_coerce" "fk_enforced pg0 = True" "scan pg0 = (\<lambda>rs. rs)"
  "clock pg0 = (\<lambda>n. 1600000000 + int n)" "session_up pg0 n" "soci_int pg0 = fetch_int"
  "soci_string pg0 = fetch_string" "soci_tm pg0 = fetch_tm" "no_row_null pg0"
  "no_row_name pg0 = Inl NullValue" "pb_flag pg0 = (\<lambda>n. n)" "pick_column pg0 = hd"
  by (simp_all add: pg0_def)

lemma pg0_deployment: "deployment pg0 pg_schema (pg_db pg0)"
  unfolding pg0_def by (rule deployment_postgres)

lemma pg0_backend: "backend pg0 pg_schema"
  by (rule deployment_backend [OF pg0_deployment])

text \<open>Freshly created tables satisfy the invariant.\<close>

lemma created_inv: "server_inv E sch (created sch UNIV (\<lambda>_. None))"
  by (auto simp: server_inv_def installed_def created_def db_ok_iff violation_def sound_def
      table_sound_def unique_ok_def refs_ok_def column_values_def list_all_iff split: option.splits)

lemma pg_start_inv: "server_inv pg0 pg_schema (tabs pg_start)"
  by (simp add: pg_start_def created_inv)

text \<open>The same after one user, an administrator, has registered.\<close>

definition ann_row :: "sqlval list" where
  "ann_row = [IntV 1, TextV ''ann'', TextV ''pw'', IntV 1]"

definition ann_world :: world where
  "ann_world = \<lparr>tabs = (tabs pg_start)(Users \<mapsto> \<lparr>cols = pg_schema Users, rows = [ann_row], seqno = 1\<rparr>),
     sessions = 2, ticks = 10\<rparr>"

lemma pg_start_users: "tabs pg_start Users = Some \<lparr>cols = pg_schema Users, rows = [], seqno = 0\<rparr>"
  by (simp add: pg_start_def created_def)

lemma ann_users: "tabs ann_world Users = Some \<lparr>cols = pg_schema Users, rows = [ann_row], seqno = 1\<rparr>"
  by (simp add: ann_world_def)

lemma pg_start_directory: "directory (tabs pg_start) u = None"
  by (simp add: directory_def stored_def pg_start_users)

lemma ann_world_simps [simp]: "sessions ann_world = 2" "ticks ann_world = 10"
  by (simp_all add: ann_world_def)

lemma ann_directory: "directory (tabs ann_world) u = (if u = ''ann'' then Some (1, ''pw'', True) else None)"
  by (auto simp: directory_def stored_def ann_users ann_row_def)

lemma ann_registers: "createUser (pg_db pg0) ''ann'' ''pw'' 0 pg_start = (Inr (1, 1), ann_world)"
proof -
  have "\<not> has_admin (directory (tabs pg_start))"
    by (simp add: has_admin_def is_admin_def pg_start_directory)
  then show ?thesis
    using backend.createUser_run [OF pg0_backend pg_start_inv _ pg_start_users, of "''ann''" "''pw''" 0]
    by (simp add: deployment_methods [OF pg0_deployment] next_id_def plain_def int32_def utf8_length_def
        pg_start_directory with_row_def bump_def ann_world_def ann_row_def)
       (simp add: pg_start_def)
qed

lemma ann_inv: "server_inv pg0 pg_schema (tabs ann_world)"
  using backend.keeps_createUser [OF pg0_backend, THEN keepsD, OF pg_start_inv, of "''ann''" "''pw''" 0]
    ann_registers
  by (simp add: deployment_methods [OF pg0_deployment])

text \<open>An engine whose stored expiry times can be fetched as dates, and a ban of the user that has
  expired a day ago.\<close>

definition some_tm :: tm where
  "some_tm = \<lparr>tm_sec = 0, tm_min = 0, tm_hour = 0, tm_mday = 1, tm_mon = 0, tm_year = 70, tm_isdst = 0\<rparr>"

definition pg0_dates :: env where
  "pg0_dates = pg0\<lparr>soci_tm := (\<lambda>_. Inr some_tm)\<rparr>"

lemma pg0_dates_deployment: "deployment pg0_dates pg_schema (pg_db pg0_dates)"
proof -
  have "backend pg0_dates pg_schema"
    by unfold_locales (auto simp: pg0_dates_def dest: pg_coerce_typed)
  then show ?thesis by (simp add: deployment_def)
qed

lemma pg0_dates_inv: "server_inv pg0_dates sch d = server_inv pg0 sch d"
  by (simp add: server_inv_def db_ok_iff violation_def pg0_dates_def)

lemma pg0_dates_simps:
  "session_up pg0_dates n" "soci_tm pg0_dates x = Inr some_tm" "c_mktime pg0_dates t = 0"
  "clock pg0_dates = (\<lambda>n. 1600000000 + int n)" "coerce pg0_dates = pg_coerce"
  by (simp_all add: pg0_dates_def pg0_def)

lemma ann_bans_table: "tabs ann_world BannedUsers = Some \<lparr>cols = pg_schema BannedUsers, rows = [], seqno = 0\<rparr>"
  by (simp add: ann_world_def pg_start_def created_def)

lemma ann_banned:
  obtains w :: world where "server_inv pg0_dates pg_schema (tabs w)" and "single_bans (tabs w)"
    and "user_ban (tabs w) ''ann'' = Some (IntV 1513600012)"
proof -
  note b = deployment_backend [OF pg0_dates_deployment]
  have inv: "server_inv pg0_dates pg_schema (tabs ann_world)"
    by (simp add: pg0_dates_inv ann_inv)
  have one: "single_bans (tabs ann_world)"
    by (simp add: single_bans_def stored_def ann_bans_table)
  have span: "ban_span (- 1) = Inr (- 86400000)" by (simp add: ban_span_eq)
  obtain w where w: "pg_banUser pg0_dates ''ann'' (- 1) ann_world = (Inr (), w)"
    "bans (tabs w) = (bans (tabs ann_world))(1 \<mapsto> IntV (clock pg0_dates (ticks ann_world + 2) + - 86400000))"
    "single_bans (tabs w) = single_bans (tabs ann_world)"
    "\<forall>t. t \<noteq> BannedUsers \<longrightarrow> tabs w t = tabs ann_world t"
    by (rule backend.banUser_run [OF b inv _ _ _ span, of "''ann''" 1 "''pw''" True])
       (auto simp: ann_directory ann_bans_table pg0_dates_simps plain_def int32_def next_id_def)
  have "server_inv pg0_dates pg_schema (tabs w)"
    using backend.keeps_banUser [OF b, THEN keepsD, OF inv, of "''ann''" "- 1"] w(1) by simp
  moreover have "directory (tabs w) ''ann'' = directory (tabs ann_world) ''ann''"
    using w(4) by (simp add: directory_def stored_def)
  ultimately show thesis
    using w(2,3) one by (intro that [of w]) (simp_all add: user_ban_def ann_directory pg0_dates_simps)
qed

text \<open>A database with a banned address.\<close>

definition ip_world :: world where
  "ip_world = ann_world\<lparr>tabs := snd (insert_into pg0_dates BannedIps
     [(''ip'', Val (TextV ''peer'')), (''expire'', NowPlus 5)] 1600000000 (tabs ann_world))\<rparr>"

lemma ip_world_bans: "ip_bans (tabs ip_world) ''peer'' = Some (IntV 1600000005)"
  by code_simp

lemma ip_world_inv: "server_inv pg0_dates pg_schema (tabs ip_world)"
proof -
  have "server_inv pg0_dates pg_schema (tabs ann_world)"
    by (simp add: pg0_dates_inv ann_inv)
  moreover have "assigns_suit pg0_dates (pg_schema BannedIps)
      [(''ip'', Val (TextV ''peer'')), (''expire'', NowPlus 5)]"
    by (auto simp: assigns_suit_def suits_def find_column_def plain_def auto_col_def)
  ultimately show ?thesis
    using backend.insert_into_sound [OF deployment_backend [OF pg0_dates_deployment]]
    by (simp add: ip_world_def)
qed

text \<open>A database with a community and two channels; the second one, called \<open>c2\<close>, does not allow
  anonymous messages. All ids are 1, except that the second channel's is 2.\<close>

definition chan_world :: world where
  "chan_world = snd (createChannel (pg_db pg0) ''c2'' 1 1 0
     (snd (createChannel (pg_db pg0) ''c1'' 1 1 1
     (snd (createCommunity (pg_db pg0) ''com'' 1 1 ann_world)))))"

lemma chan_world_inv: "server_inv pg0 pg_schema (tabs chan_world)"
proof -
  note keep = backend.keeps_createChannel [OF pg0_backend, THEN keepsD]
    backend.keeps_createCommunity [OF pg0_backend, THEN keepsD, OF ann_inv]
  show ?thesis
    unfolding chan_world_def deployment_methods [OF pg0_deployment] by (intro keep)
qed

lemma chan_world_channels: "stored (tabs chan_world) Channels =
    [[IntV 1, TextV ''c1'', IntV 1, IntV 1, IntV 1], [IntV 2, TextV ''c2'', IntV 1, IntV 1, IntV 0]]"
  by code_simp

end
