(* ===== verification/ChannelDb.thy ===== *)
theory ChannelDb
  imports Bans
begin

text \<open>
  Channels and communities in the database: what \<^verbatim>\<open>createChannel\<close>,
  \<^verbatim>\<open>createCommunity\<close> and \<^verbatim>\<open>getChannelRow\<close> do, in terms of maps
  from ids to the stored columns.
\<close>

section \<open>The map of channels and the map of communities\<close>

text \<open>The columns after the key: for a channel its name, its community, its administrator and
  whether it allows anonymous messages; for a community its name, its administrator and whether it
  is public.\<close>

definition entry_at :: "db \<Rightarrow> tabname \<Rightarrow> int \<Rightarrow> sqlval list option" where
  "entry_at d t i = map_option tl (List.find (\<lambda>r. r ! 0 = IntV i) (stored d t))"

definition channel_name :: "db \<Rightarrow> int \<Rightarrow> string option" where
  "channel_name d i = map_option (\<lambda>r. text_of (hd r)) (entry_at d Channels i)"

text \<open>The name of a channel or community is taken.\<close>

definition name_taken :: "db \<Rightarrow> tabname \<Rightarrow> string \<Rightarrow> bool" where
  "name_taken d t n \<longleftrightarrow> (\<exists>r \<in> set (stored d t). r ! 1 = TextV n)"

text \<open>The constraints that the row of a new channel or community meets: the name must be new,
  and the engine may ask for the entries it refers to.\<close>

definition refs_present :: "db \<Rightarrow> (tabname \<times> int) list \<Rightarrow> bool" where
  "refs_present d ps \<longleftrightarrow> list_all (\<lambda>(t, i). entry_at d t i \<noteq> None) ps"

lemma entry_at_None: "entry_at d t i = None \<longleftrightarrow> (\<forall>r \<in> set (stored d t). r ! 0 \<noteq> IntV i)"
  by (auto simp: entry_at_def find_None_iff)

lemma entry_at_snoc:
  assumes "d t = Some tb" and "entry_at d t i = None"
  shows "entry_at (d(t \<mapsto> with_row tb (IntV i # r))) t = (entry_at d t)(i \<mapsto> r)"
proof
  fix j
  have "stored d t = rows tb" using assms(1) by (simp add: stored_def)
  then show "entry_at (d(t \<mapsto> with_row tb (IntV i # r))) t j = ((entry_at d t)(i \<mapsto> r)) j"
    using assms(2) by (auto simp: entry_at_def find_append split: option.splits)
qed

lemma entry_at_bump: "d t = Some tb \<Longrightarrow> entry_at (d(t \<mapsto> bump tb)) u = entry_at d u"
  by (rule ext) (simp add: entry_at_def stored_def)

lemma entry_at_other: "t \<noteq> u \<Longrightarrow> entry_at (d(t \<mapsto> tb)) u = entry_at d u"
  by (rule ext) (simp add: entry_at_def)

context backend
begin

section \<open>Reading back by a unique column\<close>

lemma reread_unique:
  assumes inv: "server_inv E sch d" and i: "i < length (sch t)" "key_col (sch t ! i)"
    and r: "r \<in> set (stored d t)" "r ! i = v" "v \<noteq> Null"
    and cs: "resolve_all (header_of t) [(Col n, v)] = Inr [(i, v)]"
  shows "\<exists>rs. select_from E t [(Col n, v)] d = Inr (header_of t, r # rs)"
proof -
  let ?S = "filter (row_satisfies [(i, v)]) (stored d t)"
  have "r \<in> set (scan E ?S)" using r by (simp add: row_satisfies_def sql_eq_def)
  then obtain q rs where q: "scan E ?S = q # rs" by (metis empty_iff empty_set neq_Nil_conv)
  then have "q \<in> set (scan E ?S)" by simp
  then have "q \<in> set (stored d t)" "q ! i = v"
    unfolding set_scan by (auto simp: row_satisfies_def sql_eq_def)
  then have "q = r" using stored_unique [OF inv i _ r(1)] r by simp
  with q show ?thesis
    using select_from_eq [OF server_inv_installed [OF inv] cs] by simp
qed

lemma reread_none:
  assumes inv: "server_inv E sch d" and no: "\<And>r. r \<in> set (stored d t) \<Longrightarrow> r ! i \<noteq> v"
    and cs: "resolve_all (header_of t) [(Col n, v)] = Inr [(i, v)]"
  shows "select_from E t [(Col n, v)] d = Inr (header_of t, [])"
proof -
  have "filter (row_satisfies [(i, v)]) (stored d t) = []"
    using no by (auto simp: filter_empty_conv row_satisfies_def sql_eq_def)
  then show ?thesis
    using select_from_eq [OF server_inv_installed [OF inv] cs] scan_Nil_iff by simp
qed

lemma first_key: "key_col (sch t ! 0)" "auto_col (sch t ! 0)" "0 < length (sch t)"
    "positions primary (sch t) = [0]"
  using backend_schema by (cases t; auto simp: key_col_def auto_col_def plain_def)+

lemma entry_at_Some:
  assumes inv: "server_inv E sch d"
  shows "entry_at d t i = Some x \<longleftrightarrow> IntV i # x \<in> set (stored d t)"
proof
  assume "entry_at d t i = Some x"
  then obtain r where r: "r \<in> set (stored d t)" "r ! 0 = IntV i" "x = tl r"
    by (auto simp: entry_at_def dest: find_SomeD)
  then have "r \<noteq> []"
    using stored_row(1) [OF inv r(1) first_key(3)] first_key(3) [of t] by auto
  then have "r = IntV i # x" using r(2,3) by (cases r) auto
  with r(1) show "IntV i # x \<in> set (stored d t)" by simp
next
  assume m: "IntV i # x \<in> set (stored d t)"
  then have "entry_at d t i \<noteq> None" by (auto simp: entry_at_None intro: bexI [OF _ m])
  then obtain r where f: "List.find (\<lambda>r. r ! 0 = IntV i) (stored d t) = Some r" by (auto simp: entry_at_def)
  then have "r \<in> set (stored d t)" "r ! 0 = IntV i" by (auto dest: find_SomeD)
  then have "r = IntV i # x" using stored_unique [OF inv first_key(3,1) _ m] by simp
  with f show "entry_at d t i = Some x" by (simp add: entry_at_def)
qed

lemma primary_entry:
  assumes inv: "server_inv E sch d"
  shows "IntV i \<in> set (primary_values d t) \<longleftrightarrow> entry_at d t i \<noteq> None"
proof -
  obtain tb where tb: "d t = Some tb" "cols tb = sch t" "stored d t = rows tb"
    by (rule stored_table [OF inv])
  have "IntV i \<in> set (map (\<lambda>r. r ! 0) (rows tb)) \<longleftrightarrow> (\<exists>r \<in> set (rows tb). r ! 0 = IntV i)"
    unfolding set_map by (metis (no_types, lifting) image_iff)
  then show ?thesis
    using tb first_key(4) [of t] by (simp add: primary_values_def column_values_def entry_at_None)
qed

lemma fresh_entry:
  assumes inv: "server_inv E sch d" and tb: "d t = Some tb"
  shows "entry_at d t (next_id tb 0) = None"
  using next_id_fresh [OF inv tb first_key(3,2)] tb
  by (force simp: entry_at_None stored_def column_values_def)

section \<open>New channels and communities\<close>

lemma primary_other: "t \<noteq> u \<Longrightarrow> primary_values (d(t \<mapsto> tb)) u = primary_values d u"
  by (simp add: primary_values_def)

lemma name_column:
  assumes "d t = Some tb"
  shows "TextV n \<in> set (column_values tb 1) \<longleftrightarrow> name_taken d t n"
proof -
  have "TextV n \<in> set (map (\<lambda>r. r ! 1) (rows tb)) \<longleftrightarrow> (\<exists>r \<in> set (rows tb). r ! 1 = TextV n)"
    unfolding set_map by (metis (no_types, lifting) image_iff)
  then show ?thesis using assms by (simp add: column_values_def name_taken_def stored_def)
qed

lemma row_violation_by:
  assumes "cols tb = cs" and "row_fits cs r"
    and "(\<exists>i < length cs. key_col (cs ! i) \<and> r ! i \<noteq> Null \<and> r ! i \<in> set (column_values tb i)) \<longleftrightarrow> dup"
    and "(\<exists>i < length cs. \<exists>u. refs (cs ! i) = Some u \<and> r ! i \<noteq> Null \<and> r ! i \<notin> set (primary_values d u)) \<longleftrightarrow> missing"
  shows "row_violation E d tb r = (if dup then Some UniqueViolation
     else if fk_enforced E \<and> missing then Some ForeignKeyViolation else None)"
  unfolding row_violation_def assms(1) assms(3) assms(4) using assms(2) by simp

lemma channel_columns:
  "length (sch Channels) = 5"
  "i < 5 \<Longrightarrow> key_col (sch Channels ! i) \<longleftrightarrow> i = 0 \<or> i = 1"
  "i < 5 \<Longrightarrow> refs (sch Channels ! i) = (if i = 2 then Some Communities else if i = 3 then Some Users else None)"
  using backend_schema by (auto simp: key_col_def plain_def less_Suc_eq numeral_eq_Suc)

lemma community_columns:
  "length (sch Communities) = 4"
  "i < 4 \<Longrightarrow> key_col (sch Communities ! i) \<longleftrightarrow> i = 0 \<or> i = 1"
  "i < 4 \<Longrightarrow> refs (sch Communities ! i) = (if i = 2 then Some Users else None)"
  using backend_schema by (auto simp: key_col_def plain_def less_Suc_eq numeral_eq_Suc)

lemma insert_channel:
  assumes inv: "server_inv E sch d" and tb: "d Channels = Some tb"
    and n: "utf8_length n \<le> 100" and c: "int32 c" and a: "int32 a" and b: "b = 0 \<or> b = 1"
  defines "i \<equiv> next_id tb 0"
  shows "insert_into E Channels [(''name'', Val (TextV n)), (''community'', Val (IntV c)),
      (''admin'', Val (IntV a)), (''allow_anon'', Val (IntV b))] now d =
    (if \<not> int32 i then (Inl SequenceExhausted, d(Channels \<mapsto> bump tb))
     else if name_taken d Channels n then (Inl UniqueViolation, d(Channels \<mapsto> bump tb))
     else if fk_enforced E \<and> \<not> refs_present d [(Communities, c), (Users, a)]
     then (Inl ForeignKeyViolation, d(Channels \<mapsto> bump tb))
     else (Inr (), d(Channels \<mapsto> with_row tb [IntV i, TextV n, IntV c, IntV a, IntV b])))"
proof -
  have cols: "cols tb = sch Channels" by (rule server_inv_table [OF inv tb])
  let ?bs = "[(''name'', TextV n), (''community'', IntV c), (''admin'', IntV a), (''allow_anon'', IntV b)]"
  have as: "assign_all E now (cols tb) [(''name'', Val (TextV n)), (''community'', Val (IntV c)),
      (''admin'', Val (IntV a)), (''allow_anon'', Val (IntV b))] = Inr ?bs"
    using backend_schema cols coerce_varchar [OF n] coerce_int [OF c] coerce_int [OF a] coerce_bool [OF b]
    by (auto simp: find_column_def plain_def numeral_eq_Suc)
  have br: "build_row E now tb ?bs [0..<length (cols tb)] =
      (if int32 i then Inr [IntV i, TextV n, IntV c, IntV a, IntV b] else Inl SequenceExhausted)"
    using backend_schema cols key_next_id [OF inv tb first_key(3,2), of now]
    by (auto simp: cell_def plain_def i_def)
  have fresh: "IntV i \<notin> set (column_values tb 0)"
    unfolding i_def by (rule next_id_fresh [OF inv tb first_key(3,2)])
  show ?thesis
  proof (cases "int32 i")
    case False
    with tb as br show ?thesis by (simp add: insert_into_def)
  next
    case True
    let ?r = "[IntV i, TextV n, IntV c, IntV a, IntV b]"
    have pv: "IntV c \<in> set (primary_values (d(Channels \<mapsto> with_row tb ?r)) Communities) \<longleftrightarrow> entry_at d Communities c \<noteq> None"
      "IntV a \<in> set (primary_values (d(Channels \<mapsto> with_row tb ?r)) Users) \<longleftrightarrow> entry_at d Users a \<noteq> None"
      by (simp_all add: primary_other primary_entry [OF inv] del: fun_upd_apply)
    have "row_violation E (d(Channels \<mapsto> with_row tb ?r)) tb ?r =
        (if name_taken d Channels n then Some UniqueViolation
         else if fk_enforced E \<and> \<not> refs_present d [(Communities, c), (Users, a)] then Some ForeignKeyViolation
         else None)"
    proof (rule row_violation_by [OF cols])
      show "row_fits (sch Channels) ?r"
        using backend_schema by (auto simp: row_fits_def)
      show "(\<exists>j < length (sch Channels). key_col (sch Channels ! j) \<and> ?r ! j \<noteq> Null \<and> ?r ! j \<in> set (column_values tb j)) \<longleftrightarrow>
          name_taken d Channels n"
        using fresh name_column [of d, OF tb, of n] unfolding channel_columns(1)
        by (simp add: numeral_eq_Suc Ex_less_Suc channel_columns(2))
      show "(\<exists>j < length (sch Channels). \<exists>u. refs (sch Channels ! j) = Some u \<and> ?r ! j \<noteq> Null \<and>
          ?r ! j \<notin> set (primary_values (d(Channels \<mapsto> with_row tb ?r)) u)) \<longleftrightarrow> \<not> refs_present d [(Communities, c), (Users, a)]"
        unfolding channel_columns(1)
        by (simp add: numeral_eq_Suc Ex_less_Suc channel_columns(3) refs_present_def pv disj_commute
            del: fun_upd_apply)
    qed
    with True insert_eval [OF inv tb as] br show ?thesis by simp
  qed
qed

lemma insert_community:
  assumes inv: "server_inv E sch d" and tb: "d Communities = Some tb"
    and n: "utf8_length n \<le> 100" and a: "int32 a" and b: "b = 0 \<or> b = 1"
  defines "i \<equiv> next_id tb 0"
  shows "insert_into E Communities [(''name'', Val (TextV n)), (''admin'', Val (IntV a)),
      (''public'', Val (IntV b))] now d =
    (if \<not> int32 i then (Inl SequenceExhausted, d(Communities \<mapsto> bump tb))
     else if name_taken d Communities n then (Inl UniqueViolation, d(Communities \<mapsto> bump tb))
     else if fk_enforced E \<and> \<not> refs_present d [(Users, a)]
     then (Inl ForeignKeyViolation, d(Communities \<mapsto> bump tb))
     else (Inr (), d(Communities \<mapsto> with_row tb [IntV i, TextV n, IntV a, IntV b])))"
proof -
  have cols: "cols tb = sch Communities" by (rule server_inv_table [OF inv tb])
  let ?bs = "[(''name'', TextV n), (''admin'', IntV a), (''public'', IntV b)]"
  have as: "assign_all E now (cols tb) [(''name'', Val (TextV n)), (''admin'', Val (IntV a)),
      (''public'', Val (IntV b))] = Inr ?bs"
    using backend_schema cols coerce_varchar [OF n] coerce_int [OF a] coerce_bool [OF b]
    by (auto simp: find_column_def plain_def numeral_eq_Suc)
  have br: "build_row E now tb ?bs [0..<length (cols tb)] =
      (if int32 i then Inr [IntV i, TextV n, IntV a, IntV b] else Inl SequenceExhausted)"
    using backend_schema cols key_next_id [OF inv tb first_key(3,2), of now]
    by (auto simp: cell_def plain_def i_def)
  have fresh: "IntV i \<notin> set (column_values tb 0)"
    unfolding i_def by (rule next_id_fresh [OF inv tb first_key(3,2)])
  show ?thesis
  proof (cases "int32 i")
    case False
    with tb as br show ?thesis by (simp add: insert_into_def)
  next
    case True
    let ?r = "[IntV i, TextV n, IntV a, IntV b]"
    have pv: "IntV a \<in> set (primary_values (d(Communities \<mapsto> with_row tb ?r)) Users) \<longleftrightarrow> entry_at d Users a \<noteq> None"
      by (simp add: primary_other primary_entry [OF inv] del: fun_upd_apply)
    have "row_violation E (d(Communities \<mapsto> with_row tb ?r)) tb ?r =
        (if name_taken d Communities n then Some UniqueViolation
         else if fk_enforced E \<and> \<not> refs_present d [(Users, a)] then Some ForeignKeyViolation
         else None)"
    proof (rule row_violation_by [OF cols])
      show "row_fits (sch Communities) ?r"
        using backend_schema by (auto simp: row_fits_def)
      show "(\<exists>j < length (sch Communities). key_col (sch Communities ! j) \<and> ?r ! j \<noteq> Null \<and> ?r ! j \<in> set (column_values tb j)) \<longleftrightarrow>
          name_taken d Communities n"
        using fresh name_column [of d, OF tb, of n] unfolding community_columns(1)
        by (simp add: numeral_eq_Suc Ex_less_Suc community_columns(2))
      show "(\<exists>j < length (sch Communities). \<exists>u. refs (sch Communities ! j) = Some u \<and> ?r ! j \<noteq> Null \<and>
          ?r ! j \<notin> set (primary_values (d(Communities \<mapsto> with_row tb ?r)) u)) \<longleftrightarrow> \<not> refs_present d [(Users, a)]"
        unfolding community_columns(1)
        by (simp add: numeral_eq_Suc Ex_less_Suc community_columns(3) refs_present_def pv del: fun_upd_apply)
    qed
    with True insert_eval [OF inv tb as] br show ?thesis by simp
  qed
qed

lemma resolve_names:
  "resolve_all (header_of Channels) [(Col ''name'', x)] = Inr [(1, x)]"
  "resolve_all (header_of Channels) [(Col ''channel_id'', x)] = Inr [(0, x)]"
  "resolve_all (header_of Communities) [(Col ''name'', x)] = Inr [(1, x)]"
  "resolve (header_of Channels) (Col ''channel_id'') = Inr 0"
  "resolve (header_of Channels) (Col ''name'') = Inr 1"
  "resolve (header_of Communities) (Col ''community_id'') = Inr 0"
  by (simp_all add: header_simps resolve_def)

lemma create_columns:
  "key_col (sch Channels ! 1)" "1 < length (sch Channels)"
  "key_col (sch Communities ! 1)" "1 < length (sch Communities)"
  by (simp_all add: channel_columns community_columns)

text \<open>\<^verbatim>\<open>createChannel\<close> and \<^verbatim>\<open>createCommunity\<close>, evaluated.\<close>

lemma createChannel_run:
  assumes inv: "server_inv E sch (tabs w)" and up: "session_up E (sessions w)"
    and tb: "tabs w Channels = Some tb" and id: "int32 (next_id tb 0)"
    and n: "utf8_length n \<le> 100" and c: "int32 c" and a: "int32 a" and b: "b = 0 \<or> b = 1"
  defines "i \<equiv> next_id tb 0" and "w' \<equiv> w\<lparr>sessions := Suc (sessions w), ticks := Suc (ticks w)\<rparr>"
  shows "pg_createChannel E n c a b w =
    (if name_taken (tabs w) Channels n then (Inl UniqueViolation, w'\<lparr>tabs := (tabs w)(Channels \<mapsto> bump tb)\<rparr>)
     else if fk_enforced E \<and> \<not> refs_present (tabs w) [(Communities, c), (Users, a)]
     then (Inl ForeignKeyViolation, w'\<lparr>tabs := (tabs w)(Channels \<mapsto> bump tb)\<rparr>)
     else (Inr i, w'\<lparr>tabs := (tabs w)(Channels \<mapsto> with_row tb [IntV i, TextV n, IntV c, IntV a, IntV b]),
        ticks := ticks w + 2\<rparr>))"
proof -
  let ?r = "[IntV i, TextV n, IntV c, IntV a, IntV b]"
  let ?d = "(tabs w)(Channels \<mapsto> with_row tb ?r)"
  note ins = insert_channel [OF inv tb n c a b]
  have reread: "bind_sum (select_from E Channels [(Col ''name'', TextV n)] ?d) (\<lambda>R. into_int E R ''channel_id'' 0) = Inr i"
    if new: "\<not> name_taken (tabs w) Channels n" "\<not> (fk_enforced E \<and> \<not> refs_present (tabs w) [(Communities, c), (Users, a)])"
  proof -
    have inv': "server_inv E sch ?d"
      using insert_into_sound [OF inv suit_channel, of n c a b 0] ins [of 0] new id by (simp add: i_def)
    obtain rs where "select_from E Channels [(Col ''name'', TextV n)] ?d = Inr (header_of Channels, ?r # rs)"
      using reread_unique [OF inv' create_columns(2,1) _ _ _ resolve_names(1), of ?r] by auto
    then show ?thesis by (simp add: into_int_def resolve_names soci_int_IntV)
  qed
  show ?thesis
    using ins reread id
    by (simp add: pg_createChannel_def bind_io_def session_ok [OF up] exec_def query_def w'_def
        i_def [symmetric] del: fun_upd_apply)
qed

lemma createCommunity_run:
  assumes inv: "server_inv E sch (tabs w)" and up: "session_up E (sessions w)"
    and tb: "tabs w Communities = Some tb" and id: "int32 (next_id tb 0)"
    and n: "utf8_length n \<le> 100" and a: "int32 a" and b: "b = 0 \<or> b = 1"
  defines "i \<equiv> next_id tb 0" and "w' \<equiv> w\<lparr>sessions := Suc (sessions w), ticks := Suc (ticks w)\<rparr>"
  shows "pg_createCommunity E n a b w =
    (if name_taken (tabs w) Communities n then (Inl UniqueViolation, w'\<lparr>tabs := (tabs w)(Communities \<mapsto> bump tb)\<rparr>)
     else if fk_enforced E \<and> \<not> refs_present (tabs w) [(Users, a)]
     then (Inl ForeignKeyViolation, w'\<lparr>tabs := (tabs w)(Communities \<mapsto> bump tb)\<rparr>)
     else (Inr i, w'\<lparr>tabs := (tabs w)(Communities \<mapsto> with_row tb [IntV i, TextV n, IntV a, IntV b]),
        ticks := ticks w + 2\<rparr>))"
proof -
  let ?r = "[IntV i, TextV n, IntV a, IntV b]"
  let ?d = "(tabs w)(Communities \<mapsto> with_row tb ?r)"
  note ins = insert_community [OF inv tb n a b]
  have reread: "\<exists>rs. select_from E Communities [(Col ''name'', TextV n)] ?d = Inr (header_of Communities, ?r # rs)"
    if new: "\<not> name_taken (tabs w) Communities n" "\<not> (fk_enforced E \<and> \<not> refs_present (tabs w) [(Users, a)])"
  proof -
    have inv': "server_inv E sch ?d"
      using insert_into_sound [OF inv suit_community, of n a b 0] ins [of 0] new id by (simp add: i_def)
    show ?thesis
      using reread_unique [OF inv' create_columns(4,3) _ _ _ resolve_names(3), of ?r] by auto
  qed
  show ?thesis
    using ins reread id
    by (auto simp: pg_createCommunity_def bind_io_def session_ok [OF up] exec_def query_def w'_def
        i_def [symmetric] got_data_def into_int_def resolve_names soci_int_IntV simp del: fun_upd_apply)
qed

section \<open>Looking up a channel\<close>

lemma channel_row_shape:
  assumes inv: "server_inv E sch d" and r: "r \<in> set (stored d Channels)"
  obtains i n x y z where "r = [IntV i, TextV n, x, y, z]"
proof -
  have len: "length r = 5" using stored_row(1) [OF inv r, of 0] by (simp add: channel_columns)
  obtain i where i: "r ! 0 = IntV i"
    using stored_row(2,3) [OF inv r, of 0] backend_schema
    by (auto simp: channel_columns needs_value_def plain_def elim: well_typed.elims)
  obtain n where n: "r ! 1 = TextV n"
    using stored_row(2,3) [OF inv r, of 1] backend_schema
    by (auto simp: channel_columns needs_value_def plain_def elim: well_typed.elims)
  have "r = [r ! 0, r ! 1, r ! 2, r ! 3, r ! 4]"
    using len by (auto simp: list_eq_iff_nth_eq less_Suc_eq numeral_eq_Suc)
  with that i n show thesis by metis
qed

lemma getChannelRow_run:
  assumes inv: "server_inv E sch (tabs w)"
  shows "pg_getChannelRow E i w =
    (Inr (map_option TextV (channel_name (tabs w) i)), w\<lparr>ticks := Suc (ticks w)\<rparr>)"
proof (cases "entry_at (tabs w) Channels i")
  case None
  then have "select_from E Channels [(Col ''channel_id'', IntV i)] (tabs w) = Inr (header_of Channels, [])"
    by (intro reread_none [OF inv _ resolve_names(2)]) (auto simp: entry_at_None)
  with None show ?thesis
    by (simp add: pg_getChannelRow_def query_def resolve_names channel_name_def)
next
  case (Some x)
  then have m: "IntV i # x \<in> set (stored (tabs w) Channels)"
    by (simp add: entry_at_Some [OF inv])
  then obtain n y where x: "x = TextV n # y"
    by (rule channel_row_shape [OF inv]) auto
  obtain rs where "select_from E Channels [(Col ''channel_id'', IntV i)] (tabs w) =
      Inr (header_of Channels, (IntV i # x) # rs)"
    using reread_unique [OF inv first_key(3,1) m _ _ resolve_names(2)] by auto
  with Some x show ?thesis
    by (simp add: pg_getChannelRow_def query_def resolve_names channel_name_def)
qed

end

end
