(* ===== verification/MessageDb.thy ===== *)
theory MessageDb
  imports ChannelDb
begin

text \<open>
  Messages in the database: the history of a channel as the code reads it, and what a new message
  adds to it.
\<close>

section \<open>The history of a channel\<close>

text \<open>The rows that \<^verbatim>\<open>getChannelMessages\<close> asks for: messages of the channel joined
  with their authors, by message id.\<close>

definition message_join :: "db \<Rightarrow> int \<Rightarrow> sqlval list list" where
  "message_join d ch = filter (row_satisfies [(2, IntV ch)])
     (filter (\<lambda>r. sql_eq (r ! 1) (r ! 8)) [x @ y. x \<leftarrow> stored d Messages, y \<leftarrow> stored d Users])"

definition history :: "db \<Rightarrow> int \<Rightarrow> sqlval list list" where
  "history d ch = sort_key (\<lambda>r. int_key (r ! 0)) (message_join d ch)"

abbreviation message_header :: header where
  "message_header \<equiv> header_of Messages @ header_of Users"

context backend
begin

lemma resolve_message_join:
  "resolve message_header (QCol Messages ''user_id'') = Inr 1"
  "resolve message_header (QCol Users ''user_id'') = Inr 8"
  "resolve_all message_header [(QCol Messages ''channel'', x)] = Inr [(2, x)]"
  "resolve message_header (QCol Messages ''msg_id'') = Inr 0"
  by (simp_all add: header_simps resolve_def numeral_eq_Suc)

lemma message_columns:
  "length (sch Messages) = 8"
  "i < 8 \<Longrightarrow> key_col (sch Messages ! i) \<longleftrightarrow> i = 0"
  "i < 8 \<Longrightarrow> refs (sch Messages ! i) = (if i = 1 then Some Users else if i = 2 then Some Channels else None)"
  using backend_schema by (auto simp: key_col_def plain_def less_Suc_eq numeral_eq_Suc)

lemma message_row_shape:
  assumes inv: "server_inv E sch d" and r: "r \<in> set (stored d Messages)"
  shows "length r = 8" and "\<exists>i. r ! 0 = IntV i"
proof -
  show "length r = 8" using stored_row(1) [OF inv r, of 0] by (simp add: message_columns)
  show "\<exists>i. r ! 0 = IntV i"
    using stored_row(2,3) [OF inv r, of 0] backend_schema
    by (auto simp: message_columns needs_value_def plain_def elim: well_typed.elims)
qed

lemma message_join_mem:
  "r \<in> set (message_join d ch) \<longleftrightarrow> (\<exists>x \<in> set (stored d Messages). \<exists>y \<in> set (stored d Users). r = x @ y \<and>
     sql_eq (r ! 1) (r ! 8) \<and> row_satisfies [(2, IntV ch)] r)"
  unfolding message_join_def set_filter mem_Collect_eq join_mem by blast

text \<open>A joined row is determined by its message id.\<close>

lemma message_join_inj:
  assumes inv: "server_inv E sch d"
  shows "inj_on (\<lambda>r. int_key (r ! 0)) (set (message_join d ch))"
proof (rule inj_onI)
  fix r s assume "r \<in> set (message_join d ch)" "s \<in> set (message_join d ch)"
    and k: "int_key (r ! 0) = int_key (s ! 0)"
  then obtain x y x' y' where r: "r = x @ y" "x \<in> set (stored d Messages)" "y \<in> set (stored d Users)" "sql_eq (r ! 1) (r ! 8)"
    and s: "s = x' @ y'" "x' \<in> set (stored d Messages)" "y' \<in> set (stored d Users)" "sql_eq (s ! 1) (s ! 8)"
    by (auto simp: message_join_mem)
  have x: "length x = 8" "length x' = 8" "\<exists>i. x ! 0 = IntV i" "\<exists>i. x' ! 0 = IntV i"
    using message_row_shape [OF inv] r(2) s(2) by blast+
  have "x ! 0 = x' ! 0" "x ! 0 \<noteq> Null" using k x r(1) s(1) by (auto simp: nth_append)
  then have xx: "x = x'"
    using stored_unique [OF inv first_key(3,1) r(2) s(2)] by simp
  have y: "y ! 0 = x ! 1" "y ! 0 \<noteq> Null" "y' ! 0 = x' ! 1"
    using r(1,4) s(1,4) x by (auto simp: nth_append sql_eq_def)
  then have "y = y'"
    using stored_unique [OF inv first_key(3,1) r(3) s(3)] xx by simp
  with xx r(1) s(1) show "r = s" by simp
qed

lemma getChannelMessages_run:
  assumes inv: "server_inv E sch (tabs w)"
  shows "pg_getChannelMessages E ch w =
    (Inr (message_header, history (tabs w) ch), w\<lparr>ticks := Suc (ticks w)\<rparr>)"
proof -
  have "sort_key (\<lambda>r. int_key (r ! 0)) (scan E (message_join (tabs w) ch)) = history (tabs w) ch"
    unfolding history_def
    by (rule sort_key_unique) (simp_all add: scan_mset message_join_inj [OF inv])
  moreover have "select_join E Messages Users (QCol Messages ''user_id'') (QCol Users ''user_id'')
      [(QCol Messages ''channel'', IntV ch)] (tabs w) =
      Inr (message_header, scan E (message_join (tabs w) ch))"
    unfolding message_join_def
    by (rule select_join_eq [OF server_inv_installed [OF inv] resolve_message_join(1-3)])
  ultimately show ?thesis
    by (simp add: pg_getChannelMessages_def query_def order_by_def resolve_message_join)
qed

section \<open>A new message\<close>

lemma insert_message_row:
  assumes inv: "server_inv E sch d" and tb: "d Messages = Some tb" and id: "int32 (next_id tb 0)"
    and u: "int32 u" and ch: "int32 ch" and t: "int32 th" "tc = 0 \<or> tc = 1" and now: "int32 now"
  shows "insert_into E Messages
     [(''user_id'', Val (IntV u)), (''channel'', Val (IntV ch)), (''thread_id'', Val (IntV th)),
      (''thread_child'', Val (IntV tc)), (''mtext'', Val (TextV txt))] now d =
    (if fk_enforced E \<and> \<not> refs_present d [(Users, u), (Channels, ch)]
     then (Inl ForeignKeyViolation, d(Messages \<mapsto> bump tb))
     else (Inr (), d(Messages \<mapsto> with_row tb
       [IntV (next_id tb 0), IntV u, IntV ch, IntV th, IntV tc, IntV 0, TextV txt, IntV now])))"
proof -
  have cols: "cols tb = sch Messages" by (rule server_inv_table [OF inv tb])
  let ?bs = "[(''user_id'', IntV u), (''channel'', IntV ch), (''thread_id'', IntV th),
      (''thread_child'', IntV tc), (''mtext'', TextV txt)]"
  let ?r = "[IntV (next_id tb 0), IntV u, IntV ch, IntV th, IntV tc, IntV 0, TextV txt, IntV now]"
  have as: "assign_all E now (cols tb)
      [(''user_id'', Val (IntV u)), (''channel'', Val (IntV ch)), (''thread_id'', Val (IntV th)),
      (''thread_child'', Val (IntV tc)), (''mtext'', Val (TextV txt))] = Inr ?bs"
    using backend_schema cols coerce_int [OF u] coerce_int [OF ch] coerce_int [OF t(1)] coerce_bool [OF t(2)]
      coerce_text
    by (auto simp: find_column_def plain_def numeral_eq_Suc)
  have br: "build_row E now tb ?bs [0..<length (cols tb)] = Inr ?r"
    using backend_schema cols key_next_id [OF inv tb first_key(3,2), of now] id coerce_bool [of 0] coerce_int [OF now]
    by (auto simp: cell_def plain_def default_for_def default_value_def auto_col_def)
  have fresh: "IntV (next_id tb 0) \<notin> set (column_values tb 0)"
    by (rule next_id_fresh [OF inv tb first_key(3,2)])
  have pv: "IntV u \<in> set (primary_values (d(Messages \<mapsto> with_row tb ?r)) Users) \<longleftrightarrow> entry_at d Users u \<noteq> None"
    "IntV ch \<in> set (primary_values (d(Messages \<mapsto> with_row tb ?r)) Channels) \<longleftrightarrow> entry_at d Channels ch \<noteq> None"
    by (simp_all add: primary_other primary_entry [OF inv] del: fun_upd_apply)
  have "row_violation E (d(Messages \<mapsto> with_row tb ?r)) tb ?r =
      (if False then Some UniqueViolation
       else if fk_enforced E \<and> \<not> refs_present d [(Users, u), (Channels, ch)] then Some ForeignKeyViolation else None)"
  proof (rule row_violation_by [OF cols])
    show "row_fits (sch Messages) ?r"
      using backend_schema by (auto simp: row_fits_def)
    show "(\<exists>j < length (sch Messages). key_col (sch Messages ! j) \<and> ?r ! j \<noteq> Null \<and>
        ?r ! j \<in> set (column_values tb j)) \<longleftrightarrow> False"
      using fresh unfolding message_columns(1) by (auto simp: message_columns(2))
    show "(\<exists>j < length (sch Messages). \<exists>v. refs (sch Messages ! j) = Some v \<and> ?r ! j \<noteq> Null \<and>
        ?r ! j \<notin> set (primary_values (d(Messages \<mapsto> with_row tb ?r)) v)) \<longleftrightarrow>
        \<not> refs_present d [(Users, u), (Channels, ch)]"
      unfolding message_columns(1)
      by (simp add: numeral_eq_Suc Ex_less_Suc message_columns(3) pv refs_present_def disj_commute del: fun_upd_apply)
  qed
  then show ?thesis using insert_eval [OF inv tb as br] by simp
qed

text \<open>What a successful insert added, whatever the values were.\<close>

lemma insert_message_Inr:
  assumes inv: "server_inv E sch d" and run: "insert_into E Messages
     [(''user_id'', Val (IntV u)), (''channel'', Val (IntV ch)), (''thread_id'', Val (IntV th)),
      (''thread_child'', Val (IntV tc)), (''mtext'', Val (TextV txt))] now d = (Inr (), d')"
  obtains tb r where "d Messages = Some tb" and "d' = d(Messages \<mapsto> with_row tb r)" and "length r = 8"
    and "\<forall>i < 8. r ! i \<noteq> Null" and "coerce E IntT (IntV u) = Some (r ! 1)"
    and "coerce E IntT (IntV ch) = Some (r ! 2)" and "r ! 6 = TextV txt"
proof -
  from run obtain tb bs r where tb: "d Messages = Some tb"
    and as: "assign_all E now (cols tb) [(''user_id'', Val (IntV u)), (''channel'', Val (IntV ch)),
      (''thread_id'', Val (IntV th)), (''thread_child'', Val (IntV tc)), (''mtext'', Val (TextV txt))] = Inr bs"
    and br: "build_row E now tb bs [0..<length (cols tb)] = Inr r"
    and d': "d' = d(Messages \<mapsto> with_row tb r)"
    by (auto elim!: insert_into_Inr simp: with_row_def)
  have cols: "cols tb = sch Messages" by (rule server_inv_table [OF inv tb])
  obtain a b c e where bs: "bs = [(''user_id'', a), (''channel'', b), (''thread_id'', c), (''thread_child'', e),
      (''mtext'', TextV txt)]"
    and co: "coerce E IntT (IntV u) = Some a" "coerce E IntT (IntV ch) = Some b"
      "coerce E IntT (IntV th) = Some c" "coerce E BoolT (IntV tc) = Some e"
    using as backend_schema cols coerce_text
    by (auto simp: find_column_def plain_def numeral_eq_Suc bind_sum_Inr_iff split: option.splits)
  have cell: "cell E now tb bs i = Inr (r ! i)" if "i < 8" for i
    using build_row_nth(2) [OF br] that by (simp add: cols message_columns(1))
  have sum: "length r = 8" using build_row_nth(1) [OF br] by (simp add: cols message_columns(1))
  have r: "r ! 1 = a" "r ! 2 = b" "r ! 3 = c" "r ! 4 = e" "r ! 6 = TextV txt"
    using cell [of 1] cell [of 2] cell [of 3] cell [of 4] cell [of 6] backend_schema cols
    by (auto simp: cell_def bs plain_def)
  have key: "r ! 0 \<noteq> Null"
    using cell [of 0] key_next_id [OF inv tb first_key(3,2), of now] backend_schema cols
    by (auto simp: cell_def bs plain_def split: if_splits)
  have dflts: "coerce E BoolT (IntV 0) = Some (r ! 5)" "coerce E IntT (IntV now) = Some (r ! 7)"
    using cell [of 5] cell [of 7] backend_schema cols
    by (auto simp: cell_def bs plain_def default_for_def default_value_def auto_col_def split: option.splits)
  have num: "v \<noteq> Null" if "coerce E IntT (IntV x) = Some v \<or> coerce E BoolT (IntV x) = Some v" for v x
    using that coerce_typed [of IntT "IntV x" v] coerce_typed [of BoolT "IntV x" v] by auto
  have "a \<noteq> Null \<and> b \<noteq> Null \<and> c \<noteq> Null \<and> e \<noteq> Null \<and> r ! 5 \<noteq> Null \<and> r ! 7 \<noteq> Null"
    using num [OF disjI1 [OF co(1)]] num [OF disjI1 [OF co(2)]] num [OF disjI1 [OF co(3)]]
      num [OF disjI2 [OF co(4)]] num [OF disjI2 [OF dflts(1)]] num [OF disjI1 [OF dflts(2)]] by simp
  with key r have "\<forall>i < 8. r ! i \<noteq> Null" by (auto simp: less_Suc_eq numeral_eq_Suc)
  with tb d' sum co r show thesis by (intro that [of tb r]) simp_all
qed

text \<open>Its key is above all others, so it comes last.\<close>

lemma next_id_above:
  assumes inv: "server_inv E sch d" and tb: "d t = Some tb" and r: "r \<in> set (rows tb)"
  shows "int_key (r ! 0) < next_id tb 0"
proof -
  have "table_sound tb" and "cols tb = sch t" by (rule server_inv_table [OF inv tb])+
  then show ?thesis using next_id_bounds(3) [of tb 0 r] first_key(2,3) [of t] r by auto
qed

text \<open>What it adds to the history of a channel.\<close>

lemma key_selects:
  assumes inv: "server_inv E sch d" and r: "r \<in> set (stored d t)" and v: "r ! 0 = v" "v \<noteq> Null"
  shows "filter (\<lambda>q. sql_eq v (q ! 0)) (stored d t) = [r]"
proof -
  obtain tb where tb: "cols tb = sch t" "stored d t = rows tb" "violation E d tb = None"
    by (rule stored_table [OF inv])
  then have "distinct (filter (\<lambda>v. v \<noteq> Null) (map (\<lambda>r. r ! 0) (stored d t)))"
    using first_key(1,3) by (auto simp: violation_None_iff unique_ok_def list_all_iff column_values_def)
  then have "filter (\<lambda>q. q ! 0 = r ! 0) (stored d t) = [r]"
    by (rule filter_key_single) (use r v in simp_all)
  moreover have "(\<lambda>q. sql_eq v (q ! 0)) = (\<lambda>q. q ! 0 = r ! 0)"
    using v by (auto simp: sql_eq_def fun_eq_iff)
  ultimately show ?thesis by simp
qed

lemma message_join_with_row:
  assumes inv: "server_inv E sch d" and tb: "d Messages = Some tb" and r: "length r = 8" "r ! 1 = IntV u" "r ! 2 = IntV c"
    and y: "y \<in> set (stored d Users)" "y ! 0 = IntV u"
  shows "message_join (d(Messages \<mapsto> with_row tb r)) ch = message_join d ch @ (if c = ch then [r @ y] else [])"
proof -
  have "filter (\<lambda>q. sql_eq (IntV u) (q ! 0)) (stored d Users) = [y]"
    by (rule key_selects [OF inv y]) simp
  then have "filter (\<lambda>q. sql_eq (q ! 1) (q ! 8)) (map ((@) r) (stored d Users)) = [r @ y]"
    using r by (simp add: filter_map o_def nth_append)
  moreover have "stored d Messages = rows tb" using tb by (simp add: stored_def)
  ultimately show ?thesis
    using r by (simp add: message_join_def nth_append row_satisfies_def sql_eq_def)
qed

lemma history_with_row:
  assumes inv: "server_inv E sch d" and tb: "d Messages = Some tb"
    and r: "length r = 8" "r ! 0 = IntV (next_id tb 0)" "r ! 1 = IntV u" "r ! 2 = IntV c"
    and y: "y \<in> set (stored d Users)" "y ! 0 = IntV u"
  shows "history (d(Messages \<mapsto> with_row tb r)) ch = history d ch @ (if c = ch then [r @ y] else [])"
proof -
  have "int_key (q ! 0) < int_key ((r @ y) ! 0)" if q: "q \<in> set (message_join d ch)" for q
  proof -
    obtain x z where x: "x \<in> set (stored d Messages)" "q = x @ z" using q by (auto simp: message_join_mem)
    moreover have "length x = 8" by (rule message_row_shape(1) [OF inv x(1)])
    moreover have "x \<in> set (rows tb)" using x(1) tb by (simp add: stored_def)
    ultimately show ?thesis using next_id_above [OF inv tb, of x] r by (simp add: nth_append)
  qed
  then show ?thesis
    unfolding history_def message_join_with_row [OF inv tb r(1,3,4) y] by (simp add: sort_key_snoc)
qed

text \<open>A row whose author is not stored, which only an engine without foreign keys accepts, never
  shows up.\<close>

lemma history_orphan:
  assumes tb: "d Messages = Some tb" and r: "length r = 8" "r ! 1 = IntV u" and no: "entry_at d Users u = None"
  shows "history (d(Messages \<mapsto> with_row tb r)) ch = history d ch"
proof -
  have "filter (\<lambda>q. sql_eq (q ! 1) (q ! 8)) (map ((@) r) (stored d Users)) = []"
    using no r by (auto simp: filter_empty_conv nth_append sql_eq_def entry_at_None)
  moreover have "stored d Messages = rows tb" using tb by (simp add: stored_def)
  ultimately show ?thesis by (simp add: history_def message_join_def)
qed

lemma history_bump: "d Messages = Some tb \<Longrightarrow> history (d(Messages \<mapsto> bump tb)) ch = history d ch"
  by (simp add: history_def message_join_def stored_def)

end

end
