(* ===== verification/Auth.thy ===== *)
theory Auth
  imports Prelude "HOL-Library.Char_ord" "HOL-Library.List_Lexorder"
begin

text \<open>
  \<^verbatim>\<open>Authentication/WrongthinkTokenAuthenticator\<close>: the credentials are two metadata
  entries of the call. Metadata is a \<^verbatim>\<open>std::multimap\<close>, an association list in the
  map's iteration order: keys ascending, equal keys in the order of insertion. The order on
  strings is the one of \<^verbatim>\<open>std::string\<close>, lexicographic on unsigned bytes.
\<close>

section \<open>Multimaps\<close>

type_synonym metadata = "(string \<times> string) list"

text \<open>\<^verbatim>\<open>multimap::insert\<close> puts the pair after the entries with an equal key.\<close>

fun mm_insert :: "string \<Rightarrow> string \<Rightarrow> metadata \<Rightarrow> metadata" where
  "mm_insert k v [] = [(k, v)]"
| "mm_insert k v ((k', v') # m) = (if k < k' then (k, v) # (k', v') # m else (k', v') # mm_insert k v m)"

definition mm_count :: "metadata \<Rightarrow> string \<Rightarrow> nat" where
  "mm_count m k = length (filter (\<lambda>p. fst p = k) m)"

text \<open>\<^verbatim>\<open>multimap::find\<close>: \<open>None\<close> is \<^verbatim>\<open>end()\<close>.\<close>

definition mm_find :: "metadata \<Rightarrow> string \<Rightarrow> string option" where
  "mm_find m k = map_option snd (List.find (\<lambda>p. fst p = k) m)"

section \<open>Credentials of a call\<close>

definition AUTH_UNAME_KEY :: string where
  "AUTH_UNAME_KEY = ''auth-uname''"

definition AUTH_TOKEN_KEY :: string where
  "AUTH_TOKEN_KEY = ''auth-token''"

definition hasCredentials :: "metadata \<Rightarrow> bool" where
  "hasCredentials cmeta =
     (if mm_count cmeta AUTH_UNAME_KEY = 0 then False
      else if mm_count cmeta AUTH_TOKEN_KEY = 0 then False
      else True)"

text \<open>The iterators are dereferenced without a test for \<^verbatim>\<open>end()\<close>.\<close>

definition getCredentials :: "metadata \<Rightarrow> exn + string \<times> string" where
  "getCredentials cmeta = (case mm_find cmeta AUTH_UNAME_KEY of
      None \<Rightarrow> Inl Undefined
    | Some s1 \<Rightarrow> (case mm_find cmeta AUTH_TOKEN_KEY of
        None \<Rightarrow> Inl Undefined
      | Some s2 \<Rightarrow> Inr (s1, s2)))"

definition addCredentials :: "metadata \<Rightarrow> string \<Rightarrow> string \<Rightarrow> metadata" where
  "addCredentials context uname token =
     mm_insert AUTH_TOKEN_KEY token (mm_insert AUTH_UNAME_KEY uname context)"

section \<open>The client plugin and the server's metadata processor\<close>

record token_plugin =
  plugin_uname :: string
  plugin_token :: string

definition GetMetadata :: "token_plugin \<Rightarrow> metadata \<Rightarrow> metadata" where
  "GetMetadata p m = mm_insert AUTH_TOKEN_KEY (plugin_token p)
     (mm_insert AUTH_UNAME_KEY (plugin_uname p) m)"

definition DebugString :: "token_plugin \<Rightarrow> string" where
  "DebugString p = ''uname: '' @ plugin_uname p @ '', token: '' @ plugin_token p"

record auth_processor =
  is_blocking :: bool

definition IsBlocking :: "auth_processor \<Rightarrow> bool" where
  "IsBlocking p = is_blocking p"

text \<open>\<^verbatim>\<open>Process\<close> copies every entry into the call's properties and into the consumed
  metadata; the response metadata is left alone.\<close>

fun process_entries :: "metadata \<Rightarrow> (string \<times> string) list \<times> metadata \<Rightarrow> (string \<times> string) list \<times> metadata" where
  "process_entries [] st = st"
| "process_entries ((k, v) # m) (props, consumed) =
     process_entries m (props @ [(k, v)], mm_insert k v consumed)"

section \<open>Facts\<close>

lemma mset_mm_insert: "mset (mm_insert k v m) = add_mset (k, v) (mset m)"
  by (induction m) auto

lemma mm_count_insert: "mm_count (mm_insert k v m) k' = (if k = k' then 1 else 0) + mm_count m k'"
  by (induction m) (auto simp: mm_count_def)

lemma mm_find_Some_iff: "(\<exists>v. mm_find m k = Some v) \<longleftrightarrow> mm_count m k \<noteq> 0"
  by (induction m) (auto simp: mm_find_def mm_count_def)

lemma mm_find_insert_other: "k \<noteq> k' \<Longrightarrow> mm_find (mm_insert k v m) k' = mm_find m k'"
  by (induction m) (auto simp: mm_find_def)

lemma mm_find_insert_new: "mm_count m k = 0 \<Longrightarrow> mm_find (mm_insert k v m) k = Some v"
  by (induction m) (auto simp: mm_find_def mm_count_def)

lemma keys_differ: "AUTH_UNAME_KEY \<noteq> AUTH_TOKEN_KEY" "AUTH_TOKEN_KEY \<noteq> AUTH_UNAME_KEY"
  by (simp_all add: AUTH_UNAME_KEY_def AUTH_TOKEN_KEY_def)

lemma process_entries_consumed:
  "mset (snd (process_entries m (ps, c))) = mset m + mset c"
  by (induction m arbitrary: ps c) (auto simp: mset_mm_insert)

lemma process_entries_props: "fst (process_entries m (ps, c)) = ps @ m"
  by (induction m arbitrary: ps c) auto

end
