(* ===== verification/Channel.thy ===== *)
theory Channel
  imports Prelude "HOL-Library.Char_ord" "HOL-Library.List_Lexorder"
begin

text \<open>
  The messages and channels of the protocol (generated protobuf classes, here records with
  the fields that the code uses) and the sequential behaviour of
  \<^verbatim>\<open>SynchronizedChannel\<close>: the body of each method as it runs under the channel's
  mutex. Locking, waiting and notifying are in the theory \<open>Listeners\<close>.
\<close>

section \<open>Protocol data\<close>

record message =
  msg_uname :: string
  msg_channelname :: string
  msg_channelid :: int
  msg_userid :: int
  msg_threadid :: int
  msg_threadchild :: int
  msg_edited :: int
  msg_text :: string
  msg_date :: int
  msg_messageid :: int

definition empty_message :: message where
  "empty_message = \<lparr>msg_uname = [], msg_channelname = [], msg_channelid = 0, msg_userid = 0,
     msg_threadid = 0, msg_threadchild = 0, msg_edited = 0, msg_text = [], msg_date = 0,
     msg_messageid = 0\<rparr>"

record channel =
  ch_id :: int
  ch_name :: string
  ch_anonymous :: int
  ch_communityid :: int
  ch_unameadmin :: string

definition empty_channel :: channel where
  "empty_channel = \<lparr>ch_id = 0, ch_name = [], ch_anonymous = 0, ch_communityid = 0, ch_unameadmin = []\<rparr>"

section \<open>SynchronizedChannel\<close>

record sync_channel =
  wtChannel :: channel
  last_message :: message
  msgVector :: "message list"

definition SynchronizedChannel_of :: "channel \<Rightarrow> sync_channel" where
  "SynchronizedChannel_of wt = \<lparr>wtChannel = wt, last_message = empty_message, msgVector = []\<rparr>"

definition SynchronizedChannel_default :: sync_channel where
  "SynchronizedChannel_default =
     \<lparr>wtChannel = empty_channel, last_message = empty_message, msgVector = []\<rparr>"

definition SynchronizedChannel_named :: "int \<Rightarrow> string \<Rightarrow> sync_channel" where
  "SynchronizedChannel_named channelId channelName =
     \<lparr>wtChannel = empty_channel\<lparr>ch_id := channelId, ch_name := channelName\<rparr>,
      last_message = empty_message, msgVector = []\<rparr>"

definition sendMessage :: "message \<Rightarrow> sync_channel \<Rightarrow> sync_channel" where
  "sendMessage msg c = c"

definition appendMessage :: "message \<Rightarrow> sync_channel \<Rightarrow> sync_channel" where
  "appendMessage msg c = c\<lparr>msgVector := msgVector c @ [msg], last_message := msg\<rparr>"

definition lastMessage :: "sync_channel \<Rightarrow> message" where
  "lastMessage c = last_message c"

definition getMessages :: "sync_channel \<Rightarrow> message list" where
  "getMessages c = msgVector c"

definition getChannel :: "sync_channel \<Rightarrow> channel" where
  "getChannel c = wtChannel c"

definition channel_eq :: "sync_channel \<Rightarrow> sync_channel \<Rightarrow> bool" where
  "channel_eq c sch = (ch_name (getChannel sch) = ch_name (wtChannel c))"

definition channel_eq_wt :: "sync_channel \<Rightarrow> channel \<Rightarrow> bool" where
  "channel_eq_wt c sch = (ch_name sch = ch_name (wtChannel c))"

definition channel_less :: "sync_channel \<Rightarrow> sync_channel \<Rightarrow> bool" where
  "channel_less c sch = (ch_name (wtChannel c) < ch_name (getChannel sch))"

definition channel_less_wt :: "sync_channel \<Rightarrow> channel \<Rightarrow> bool" where
  "channel_less_wt c sch = (ch_name (wtChannel c) < ch_name sch)"

section \<open>The contract of a message log\<close>

text \<open>What the service relies on: appended messages are kept in order, and the last one can be
  read back.\<close>

locale message_log =
  fixes append :: "'m \<Rightarrow> 'c \<Rightarrow> 'c"
    and log :: "'c \<Rightarrow> 'm list"
    and newest :: "'c \<Rightarrow> 'm"
    and nothing :: 'm
    and fresh :: "'c \<Rightarrow> bool"
  assumes fresh_log: "fresh c \<Longrightarrow> log c = [] \<and> newest c = nothing"
    and log_append: "log (append m c) = log c @ [m]"
    and newest_append: "newest (append m c) = m"
begin

lemma log_fold: "log (fold append ms c) = log c @ ms"
  by (induction ms arbitrary: c) (simp_all add: log_append)

lemma newest_fold: "ms \<noteq> [] \<Longrightarrow> newest (fold append ms c) = last ms"
  by (induction ms rule: rev_induct) (simp_all add: newest_append)

lemma fresh_run:
  "fresh c \<Longrightarrow> log (fold append ms c) = ms \<and>
     newest (fold append ms c) = (if ms = [] then nothing else last ms)"
  using fresh_log [of c] by (simp add: log_fold newest_fold)

end

definition fresh_channel :: "sync_channel \<Rightarrow> bool" where
  "fresh_channel c \<longleftrightarrow> msgVector c = [] \<and> last_message c = empty_message"

interpretation sync: message_log appendMessage getMessages lastMessage empty_message fresh_channel
  by unfold_locales (simp_all add: appendMessage_def getMessages_def lastMessage_def fresh_channel_def)

lemma constructors_fresh:
  "fresh_channel (SynchronizedChannel_of wt)" "fresh_channel SynchronizedChannel_default"
  "fresh_channel (SynchronizedChannel_named i n)"
  by (simp_all add: fresh_channel_def SynchronizedChannel_of_def SynchronizedChannel_default_def
      SynchronizedChannel_named_def)

lemma wtChannel_fold: "wtChannel (fold appendMessage ms c) = wtChannel c"
  by (induction ms arbitrary: c) (simp_all add: appendMessage_def)

end
