(* ===== verification/Uuid.thy ===== *)
theory Uuid
  imports Prelude "HOL-Library.Word" "HOL-Library.List_Lexorder"
begin

text \<open>
  The identifiers that \<^verbatim>\<open>GenerateUser\<close> hands out: Boost's random UUIDs
  (\<^verbatim>\<open>third_party/boost_uuid\<close>), their text form, and the loop of the handler that
  strips the dashes. The entropy source of the operating system is an argument.
\<close>

unbundle bit_operations_syntax

section \<open>Random UUIDs\<close>

type_synonym byte = "8 word"

text \<open>\<^verbatim>\<open>struct uuid\<close> is an array of 16 bytes.\<close>

datatype uuid = Uuid (data: "byte list")

definition valid_uuid :: "uuid \<Rightarrow> bool" where
  "valid_uuid u \<longleftrightarrow> length (data u) = 16"

definition set_uuid_random_vv :: "uuid \<Rightarrow> uuid" where
  "set_uuid_random_vv u =
     (let d8 = (data u)[8 := (data u ! 8 AND 0xBF) OR 0x80]
      in Uuid (d8[6 := (d8 ! 6 AND 0x4F) OR 0x40]))"

text \<open>\<^verbatim>\<open>random_generator_pure::operator()\<close>: the argument is what
  \<^verbatim>\<open>get_random_bytes\<close> delivers, 16 bytes or an \<^verbatim>\<open>entropy_error\<close>.\<close>

definition random_generator :: "exn + byte list \<Rightarrow> exn + uuid" where
  "random_generator entropy = (case entropy of Inl e \<Rightarrow> Inl e
     | Inr bs \<Rightarrow> Inr (set_uuid_random_vv (Uuid bs)))"

datatype variant_type = variant_ncs | variant_rfc_4122 | variant_microsoft | variant_future

definition variant :: "uuid \<Rightarrow> variant_type" where
  "variant u = (let octet7 = data u ! 8 in
     if octet7 AND 0x80 = 0x00 then variant_ncs
     else if octet7 AND 0xC0 = 0x80 then variant_rfc_4122
     else if octet7 AND 0xE0 = 0xC0 then variant_microsoft
     else variant_future)"

datatype version_type =
    version_unknown | version_time_based | version_dce_security
  | version_name_based_md5 | version_random_number_based | version_name_based_sha1

definition version :: "uuid \<Rightarrow> version_type" where
  "version u = (let octet9 = data u ! 6 in
     if octet9 AND 0xF0 = 0x10 then version_time_based
     else if octet9 AND 0xF0 = 0x20 then version_dce_security
     else if octet9 AND 0xF0 = 0x30 then version_name_based_md5
     else if octet9 AND 0xF0 = 0x40 then version_random_number_based
     else if octet9 AND 0xF0 = 0x50 then version_name_based_sha1
     else version_unknown)"

text \<open>\<^verbatim>\<open>operator==\<close> and \<^verbatim>\<open>operator<\<close> are
  \<^verbatim>\<open>memcmp\<close> on the 16 bytes: equality, and the lexicographic order on unsigned
  bytes.\<close>

definition uuid_before :: "uuid \<Rightarrow> uuid \<Rightarrow> bool" where
  "uuid_before u v \<longleftrightarrow> data u < data v"

instantiation uuid :: linorder
begin

definition less_uuid :: "uuid \<Rightarrow> uuid \<Rightarrow> bool" where
  "less_uuid = uuid_before"

definition less_eq_uuid :: "uuid \<Rightarrow> uuid \<Rightarrow> bool" where
  "less_eq_uuid u v \<longleftrightarrow> data u \<le> data v"

instance
  by standard (auto simp: less_uuid_def uuid_before_def less_eq_uuid_def uuid.expand)

end

definition is_nil :: "uuid \<Rightarrow> bool" where
  "is_nil u = list_all (\<lambda>b. b = 0) (data u)"

section \<open>Text form\<close>

definition to_char :: "nat \<Rightarrow> char" where
  "to_char i = (if i \<le> 9 then char_of (48 + i) else char_of (97 + (i - 10)))"

fun to_string_from :: "nat \<Rightarrow> byte list \<Rightarrow> string" where
  "to_string_from i [] = []"
| "to_string_from i (b # bs) =
     (let hi = unat (drop_bit 4 b AND 0x0F); lo = unat (b AND 0x0F)
      in to_char hi # to_char lo #
         (if i = 3 \<or> i = 5 \<or> i = 7 \<or> i = 9 then CHR ''-'' # to_string_from (Suc i) bs
          else to_string_from (Suc i) bs))"

definition to_string :: "uuid \<Rightarrow> string" where
  "to_string u = to_string_from 0 (data u)"

section \<open>Stripping the dashes\<close>

text \<open>
  \<^verbatim>\<open>while((idx = id.find('-')) != std::string::npos) id.erase(idx, 1);\<close> with
  \<^verbatim>\<open>int idx\<close>: the 64-bit position is cut to 32 bits, sign-extended again for the
  comparison with \<^verbatim>\<open>npos\<close> and for the call of \<^verbatim>\<open>erase\<close>, which
  throws when the position lies beyond the end. The loop may not end as far as its
  definition goes; \<open>None\<close> is "does not return".
\<close>

fun index_of :: "char \<Rightarrow> string \<Rightarrow> nat option" where
  "index_of c [] = None"
| "index_of c (x # xs) = (if x = c then Some 0 else map_option Suc (index_of c xs))"

definition string_find :: "char \<Rightarrow> string \<Rightarrow> 64 word" where
  "string_find c s = (case index_of c s of None \<Rightarrow> - 1 | Some i \<Rightarrow> of_nat i)"

definition string_erase1 :: "string \<Rightarrow> 64 word \<Rightarrow> exn + string" where
  "string_erase1 s pos = (if length s < unat pos then Inl OutOfRange
     else Inr (take (unat pos) s @ drop (Suc (unat pos)) s))"

partial_function (option) strip_dashes :: "string \<Rightarrow> (exn + string) option" where
  "strip_dashes s =
     (let idx = ucast (string_find (CHR ''-'') s) :: 32 word in
      if scast idx = (- 1 :: 64 word) then Some (Inr s)
      else (case string_erase1 s (scast idx) of
              Inl e \<Rightarrow> Some (Inl e)
            | Inr t \<Rightarrow> strip_dashes t))"

section \<open>Facts\<close>

lemma byte_less: "unat (b :: byte) < 256"
proof -
  have "unat b < 2 ^ LENGTH(8)" by (rule unsigned_less)
  then show ?thesis by simp
qed

lemma byte_div_16: "unat (b :: byte) div 16 < 16"
  using byte_less [of b] by simp

lemma unat_low_nibble: "unat ((b :: byte) AND 0x0F) = unat b mod 16"
proof -
  have "b AND 0x0F = take_bit 4 b"
    by (simp add: take_bit_eq_mask mask_eq_exp_minus_1)
  then have "b AND 0x0F = b mod 16"
    by (simp add: take_bit_eq_mod)
  then show ?thesis by (simp only: unat_mod_distrib) simp
qed

lemma unat_high_nibble: "unat (drop_bit 4 (b :: byte) AND 0x0F) = unat b div 16"
proof -
  have "unat (drop_bit 4 b AND 0x0F) = unat (drop_bit 4 b) mod 16"
    by (rule unat_low_nibble)
  also have "unat (drop_bit 4 b) = unat b div 16"
    by (simp only: unat_drop_bit_eq) (simp add: drop_bit_eq_div)
  finally show ?thesis using byte_div_16 [of b] by simp
qed

lemma to_string_from_Cons:
  "to_string_from i (b # bs) = to_char (unat b div 16) # to_char (unat b mod 16) #
     (if i = 3 \<or> i = 5 \<or> i = 7 \<or> i = 9 then CHR ''-'' # to_string_from (Suc i) bs
      else to_string_from (Suc i) bs)"
  by (simp only: to_string_from.simps Let_def unat_high_nibble) (simp only: unat_low_nibble)

definition is_hex :: "char \<Rightarrow> bool" where
  "is_hex c \<longleftrightarrow> c \<in> set ''0123456789abcdef''"

lemma to_char_table: "i < 16 \<Longrightarrow> to_char i = ''0123456789abcdef'' ! i"
proof -
  assume "i < 16"
  moreover have "list_all (\<lambda>i. to_char i = ''0123456789abcdef'' ! i) [0..<16]"
    by code_simp
  ultimately show ?thesis by (simp add: list_all_iff)
qed

lemma to_char_hex: "i < 16 \<Longrightarrow> is_hex (to_char i)"
  unfolding to_char_table is_hex_def by (rule nth_mem) simp

lemma to_char_not_dash: "i < 16 \<Longrightarrow> to_char i \<noteq> CHR ''-''"
  using to_char_hex [of i] by (auto simp: is_hex_def)

lemma distinct_hex: "distinct ''0123456789abcdef''"
  by simp

lemma to_char_inject: "i < 16 \<Longrightarrow> j < 16 \<Longrightarrow> to_char i = to_char j \<Longrightarrow> i = j"
  using nth_eq_iff_index_eq [OF distinct_hex, of i j] by (simp add: to_char_table del: distinct.simps)

text \<open>The digits of a byte list, without separators.\<close>

definition hex_digits :: "byte list \<Rightarrow> string" where
  "hex_digits bs = concat (map (\<lambda>b. [to_char (unat b div 16), to_char (unat b mod 16)]) bs)"

lemma length_hex_digits: "length (hex_digits bs) = 2 * length bs"
  by (induction bs) (simp_all add: hex_digits_def)

lemma hex_digits_hex: "c \<in> set (hex_digits bs) \<Longrightarrow> is_hex c"
  by (auto simp: hex_digits_def intro!: to_char_hex byte_div_16)

lemma hex_digits_inject: "hex_digits bs = hex_digits cs \<Longrightarrow> bs = cs"
proof (induction bs arbitrary: cs)
  case Nil
  then show ?case using length_hex_digits [of cs] by (simp add: hex_digits_def)
next
  case (Cons b bs)
  then obtain c cs' where cs: "cs = c # cs'"
    using length_hex_digits [of cs] length_hex_digits [of "b # bs"] by (cases cs) auto
  with Cons.prems have "to_char (unat b div 16) = to_char (unat c div 16)"
    and "to_char (unat b mod 16) = to_char (unat c mod 16)" and rest: "hex_digits bs = hex_digits cs'"
    by (simp_all add: hex_digits_def)
  then have "unat b div 16 = unat c div 16" and "unat b mod 16 = unat c mod 16"
    by (auto dest!: to_char_inject [rotated 2] intro: byte_div_16)
  then have "unat b = unat c"
    by (metis mult_div_mod_eq)
  with Cons.IH [OF rest] cs show ?case
    by (simp add: unsigned_word_eqI)
qed

lemma filter_to_string_from:
  "filter (\<lambda>c. c \<noteq> CHR ''-'') (to_string_from i bs) = hex_digits bs"
  by (induction bs arbitrary: i)
     (simp_all add: hex_digits_def to_string_from_Cons to_char_not_dash byte_div_16
        del: to_string_from.simps(2))

text \<open>The dash loop.\<close>

lemma index_of_None: "index_of c s = None \<longleftrightarrow> c \<notin> set s"
  by (induction s) auto

lemma index_of_Some:
  "index_of c s = Some i \<Longrightarrow> i < length s \<and> filter (\<lambda>x. x \<noteq> c) (take i s @ drop (Suc i) s) = filter (\<lambda>x. x \<noteq> c) s"
  by (induction s arbitrary: i) (auto split: if_splits)

lemma int_position:
  assumes "i < 2147483648"
  shows "scast (ucast (of_nat i :: 64 word) :: 32 word) = (of_nat i :: 64 word)"
proof -
  have "ucast (of_nat i :: 64 word) = (of_nat i :: 32 word)"
    by (rule word_unat_eq_iff [THEN iffD2])
       (use assms in \<open>simp add: unsigned_ucast_eq unat_of_nat take_bit_nat_eq_self\<close>)
  moreover have "sint (of_nat i :: 32 word) = int i"
    using assms by (simp add: signed_of_nat signed_take_bit_int_eq_self)
  ultimately show ?thesis
    by (simp add: scast_eq)
qed

lemma minus_one_casts: "scast (ucast (- 1 :: 64 word) :: 32 word) = (- 1 :: 64 word)"
  by code_simp

lemma strip_dashes_eq:
  "length s < 2147483648 \<Longrightarrow> strip_dashes s = Some (Inr (filter (\<lambda>c. c \<noteq> CHR ''-'') s))"
proof (induction "length s" arbitrary: s rule: less_induct)
  case less
  show ?case
  proof (cases "index_of (CHR ''-'') s")
    case None
    then have "filter (\<lambda>c. c \<noteq> CHR ''-'') s = s"
      by (auto simp: index_of_None filter_id_conv)
    with None show ?thesis
      by (subst strip_dashes.simps) (simp add: string_find_def Let_def minus_one_casts)
  next
    case (Some i)
    let ?t = "take i s @ drop (Suc i) s"
    from index_of_Some [OF Some] have i: "i < length s"
      and f: "filter (\<lambda>c. c \<noteq> CHR ''-'') ?t = filter (\<lambda>c. c \<noteq> CHR ''-'') s" by auto
    have u: "unat (of_nat i :: 64 word) = i"
      using i less.prems by (simp add: unat_of_nat)
    have "(of_nat i :: 64 word) \<noteq> - 1"
    proof
      assume "(of_nat i :: 64 word) = - 1"
      then have "unat (of_nat i :: 64 word) = unat (- 1 :: 64 word)" by simp
      with u i less.prems show False by (simp add: unsigned_minus_1_eq_mask mask_eq_exp_minus_1)
    qed
    moreover have "strip_dashes ?t = Some (Inr (filter (\<lambda>c. c \<noteq> CHR ''-'') ?t))"
      by (rule less.hyps) (use i less.prems in auto)
    ultimately show ?thesis
      using Some i less.prems
      by (subst strip_dashes.simps)
         (simp add: string_find_def int_position string_erase1_def u f [unfolded filter_append])
  qed
qed

section \<open>Generated identifiers\<close>

lemma length_to_string_from: "length (to_string_from i bs) \<le> 3 * length bs"
  by (induction bs arbitrary: i) (auto simp: Let_def intro: le_trans le_SucI)

text \<open>The digits of a random UUID, and what \<open>set_uuid_random_vv\<close> fixes in them.\<close>

definition random_digits :: "byte list \<Rightarrow> string" where
  "random_digits bs = hex_digits (data (set_uuid_random_vv (Uuid bs)))"

lemma random_vv_nth:
  assumes "length bs = 16"
  shows "length (data (set_uuid_random_vv (Uuid bs))) = 16"
    and "data (set_uuid_random_vv (Uuid bs)) ! 6 = (bs ! 6 AND 0x4F) OR 0x40"
    and "data (set_uuid_random_vv (Uuid bs)) ! 8 = (bs ! 8 AND 0xBF) OR 0x80"
    and "i \<noteq> 6 \<Longrightarrow> i \<noteq> 8 \<Longrightarrow> data (set_uuid_random_vv (Uuid bs)) ! i = bs ! i"
  using assms by (simp_all add: set_uuid_random_vv_def Let_def)

lemma strip_random:
  assumes "length bs = 16"
  shows "strip_dashes (to_string (set_uuid_random_vv (Uuid bs))) = Some (Inr (random_digits bs))"
proof -
  have "length (to_string (set_uuid_random_vv (Uuid bs))) \<le> 48"
    using length_to_string_from [of 0 "data (set_uuid_random_vv (Uuid bs))"] random_vv_nth(1) [OF assms]
    by (simp add: to_string_def)
  then show ?thesis
    by (subst strip_dashes_eq) (simp_all add: to_string_def filter_to_string_from random_digits_def)
qed

lemma random_digits_shape:
  assumes "length bs = 16"
  shows "length (random_digits bs) = 32" and "list_all is_hex (random_digits bs)"
  using length_hex_digits [of "data (set_uuid_random_vv (Uuid bs))"] random_vv_nth(1) [OF assms]
  by (auto simp: random_digits_def list_all_iff dest: hex_digits_hex)

lemma version_bits: "((b :: byte) AND 0x4F OR 0x40) AND 0xF0 = 0x40"
  by (rule bit_word_eqI) (auto simp: bit_simps less_Suc_eq numeral_eq_Suc)

lemma variant_bits: "((b :: byte) AND 0xBF OR 0x80) AND 0xC0 = 0x80" "((b :: byte) AND 0xBF OR 0x80) AND 0x80 = 0x80"
  by (rule bit_word_eqI; auto simp: bit_simps less_Suc_eq numeral_eq_Suc)+

end
