(* ===== verification/Service.thy ===== *)
theory Service
  imports Database Auth Channel Uuid
begin

text \<open>
  \<^verbatim>\<open>WrongthinkServiceImpl\<close>: one definition per RPC handler, over the state that the
  service object keeps (the map of live channels) and the database behind it. A handler takes
  the database's method table, so it runs on either back end. Exceptions that a handler
  catches become the status \<^verbatim>\<open>INTERNAL\<close>, with all state changes made so far kept.
  Responses of unary calls are returned updated; messages written to a stream are collected
  in the second component of the state, as \<^verbatim>\<open>ServerWriterWrapper\<close> does under
  \<^verbatim>\<open>GTEST\<close>.
\<close>

section \<open>State\<close>

record server =
  world_of :: world
  channelMap :: "int \<rightharpoonup> sync_channel"

datatype status_code = OK | INVALID_ARGUMENT | UNAUTHENTICATED | INTERNAL

datatype status = Status status_code string

abbreviation status_ok :: status where
  "status_ok \<equiv> Status OK []"

definition on_db :: "(world, 'a) io \<Rightarrow> (server, 'a) io" where
  "on_db m s = (let (r, w) = m (world_of s) in (r, s\<lparr>world_of := w\<rparr>))"

text \<open>Handlers that write to a stream run on the server together with what was written.\<close>

definition on_server :: "(server, 'a) io \<Rightarrow> (server \<times> 'o list, 'a) io" where
  "on_server m st = (let (r, s) = m (fst st) in (r, (s, snd st)))"

definition Write :: "'o \<Rightarrow> (server \<times> 'o list, unit) io" where
  "Write obj st = (Inr (), (fst st, snd st @ [obj]))"

fun for_rows :: "'r list \<Rightarrow> ('r \<Rightarrow> ('s, unit) io) \<Rightarrow> ('s, unit) io" where
  "for_rows [] f = ret ()"
| "for_rows (r # rs) f = bind_io (f r) (\<lambda>_. for_rows rs f)"

text \<open>\<^verbatim>\<open>row.get<T>(pos)\<close> and \<^verbatim>\<open>row.get<T>("name")\<close>.\<close>

definition row_int :: "env \<Rightarrow> sqlval list \<Rightarrow> nat \<Rightarrow> exn + int" where
  "row_int E r i = (if i < length r then soci_int E (r ! i) else Inl OutOfRange)"

definition row_string :: "env \<Rightarrow> sqlval list \<Rightarrow> nat \<Rightarrow> exn + string" where
  "row_string E r i = (if i < length r then soci_string E (r ! i) else Inl OutOfRange)"

definition named :: "env \<Rightarrow> header \<Rightarrow> string \<Rightarrow> exn + nat" where
  "named E h n = (case positions (\<lambda>p. snd p = n) h of [] \<Rightarrow> Inl UndefinedColumn
     | i # is \<Rightarrow> Inr (pick_column E (i # is)))"

definition named_int :: "env \<Rightarrow> header \<Rightarrow> sqlval list \<Rightarrow> string \<Rightarrow> exn + int" where
  "named_int E h r n = bind_sum (named E h n) (row_int E r)"

definition named_string :: "env \<Rightarrow> header \<Rightarrow> sqlval list \<Rightarrow> string \<Rightarrow> exn + string" where
  "named_string E h r n = bind_sum (named E h n) (row_string E r)"

section \<open>Reading a stream\<close>

text \<open>\<^verbatim>\<open>ServerReaderWrapper\<close> as compiled under \<^verbatim>\<open>GTEST\<close>; for the
  server, \<open>objList\<close> is what the client sends before it closes the stream. A position
  beyond the end would be an access out of bounds.\<close>

record 'o reader =
  objList :: "'o list"
  pos :: nat

definition Read :: "'o reader \<Rightarrow> exn + 'o option \<times> 'o reader" where
  "Read rd = (if pos rd = length (objList rd) then Inr (None, rd)
     else if length (objList rd) < pos rd then Inl Undefined
     else Inr (Some (objList rd ! pos rd), rd\<lparr>pos := Suc (pos rd)\<rparr>))"

definition open_reader :: "'o list \<Rightarrow> 'o reader" where
  "open_reader xs = \<lparr>objList = xs, pos = 0\<rparr>"

section \<open>Requests and responses\<close>

record ban_request =
  ban_uname :: string
  ban_days :: int

record user_response =
  u_userid :: int
  u_uname :: string
  u_token :: string
  u_admin :: int

record create_user_request =
  cu_uname :: string
  cu_password :: string
  cu_admin :: int

record create_channel_request =
  cc_name :: string
  cc_communityid :: int
  cc_adminid :: int
  cc_anonymous :: int

record create_community_request =
  co_name :: string
  co_adminid :: int
  co_public :: int

record community =
  com_id :: int
  com_name :: string
  com_unameadmin :: string

definition empty_community :: community where
  "empty_community = \<lparr>com_id = 0, com_name = [], com_unameadmin = []\<rparr>"

section \<open>Users\<close>

definition DeleteMessage :: "'resp \<Rightarrow> (server, status \<times> 'resp) io" where
  "DeleteMessage response = ret (status_ok, response)"

definition BanUser ::
  "db_interface \<Rightarrow> metadata \<Rightarrow> ban_request \<Rightarrow> string \<Rightarrow> (server, status \<times> string) io" where
  "BanUser db meta request response = try_catch
     (if \<not> hasCredentials meta
      then ret (Status UNAUTHENTICATED ''No credentials attached to the channel'', response)
      else bind_io (lift_sum (getCredentials meta)) (\<lambda>creds.
           bind_io (on_db (isUserValid db (fst creds) (snd creds))) (\<lambda>valid.
           if \<not> valid then ret (Status UNAUTHENTICATED ''Invalid user'', response)
           else bind_io (on_db (isUserAdmin db (fst creds))) (\<lambda>admin.
             if \<not> admin then ret (Status UNAUTHENTICATED ''Invalid permission'', response)
             else bind_io (on_db (banUser db (ban_uname request) (ban_days request))) (\<lambda>_.
               ret (status_ok, ''test''))))))
     (ret (Status INTERNAL [], response))"

text \<open>A fresh identifier: a random UUID in text form, without its dashes.\<close>

definition fresh_id :: "exn + byte list \<Rightarrow> (exn + string) option" where
  "fresh_id entropy = (case random_generator entropy of
      Inl e \<Rightarrow> Some (Inl e) | Inr u \<Rightarrow> strip_dashes (to_string u))"

text \<open>\<open>None\<close>: one of the two loops that strip the dashes does not end. The entropy for
  the two identifiers is given.\<close>

definition GenerateUser ::
  "env \<Rightarrow> db_interface \<Rightarrow> exn + byte list \<Rightarrow> exn + byte list \<Rightarrow> user_response \<Rightarrow>
   (server, status \<times> user_response) io option" where
  "GenerateUser E db entropy1 entropy2 response =
     (let failed = ret (Status INTERNAL [], response) in
      case fresh_id entropy1 of
        None \<Rightarrow> None
      | Some (Inl e) \<Rightarrow> Some (try_catch (raise e) failed)
      | Some (Inr id1) \<Rightarrow> (case fresh_id entropy2 of
          None \<Rightarrow> None
        | Some (Inl e) \<Rightarrow> Some (try_catch (raise e) failed)
        | Some (Inr id2) \<Rightarrow> Some (try_catch
            (bind_io (on_db (createUser db id1 id2 0)) (\<lambda>(uid, admin).
               ret (status_ok, response\<lparr>u_uname := id1, u_token := id2,
                 u_admin := pb_flag E admin, u_userid := uid\<rparr>)))
            failed)))"

definition CreateUser ::
  "env \<Rightarrow> db_interface \<Rightarrow> create_user_request \<Rightarrow> user_response \<Rightarrow>
   (server, status \<times> user_response) io" where
  "CreateUser E db request response = try_catch
     (bind_io (on_db (createUser db (cu_uname request) (cu_password request) (cu_admin request)))
        (\<lambda>(uid, admin). ret (status_ok, response\<lparr>u_userid := uid, u_uname := cu_uname request,
           u_admin := pb_flag E admin\<rparr>)))
     (ret (Status INTERNAL [], response))"

section \<open>Communities and channels\<close>

definition GetWrongthinkCommunitiesImpl ::
  "env \<Rightarrow> db_interface \<Rightarrow> (server \<times> community list, status) io" where
  "GetWrongthinkCommunitiesImpl E db = try_catch
     (bind_io (on_server (on_db (getSociSession E))) (\<lambda>_.
      bind_io (on_server (on_db (getCommunityRowset db))) (\<lambda>rs.
      bind_io (for_rows (snd rs) (\<lambda>row.
         bind_io (lift_sum (row_int E row 0)) (\<lambda>i.
         bind_io (lift_sum (row_string E row 1)) (\<lambda>n.
         bind_io (lift_sum (row_string E row 5)) (\<lambda>u.
         Write (empty_community\<lparr>com_id := i, com_name := n, com_unameadmin := u\<rparr>))))))
      (\<lambda>_. ret status_ok))))
     (ret (Status INTERNAL []))"

definition GetWrongthinkChannelsImpl ::
  "env \<Rightarrow> db_interface \<Rightarrow> int \<Rightarrow> (server \<times> channel list, status) io" where
  "GetWrongthinkChannelsImpl E db community = try_catch
     (bind_io (on_server (on_db (getSociSession E))) (\<lambda>_.
      bind_io (on_server (on_db (getCommunityChannelsRowset db community))) (\<lambda>rs.
      bind_io (for_rows (snd rs) (\<lambda>row.
         bind_io (lift_sum (row_int E row 0)) (\<lambda>i.
         bind_io (lift_sum (row_string E row 1)) (\<lambda>n.
         bind_io (lift_sum (row_int E row 2)) (\<lambda>a.
         bind_io (lift_sum (row_string E row 6)) (\<lambda>u.
         Write (empty_channel\<lparr>ch_id := i, ch_name := n, ch_anonymous := pb_flag E a,
           ch_communityid := community, ch_unameadmin := u\<rparr>)))))))
      (\<lambda>_. ret status_ok))))
     (ret (Status INTERNAL []))"

definition CreateWrongthinkChannel ::
  "db_interface \<Rightarrow> create_channel_request \<Rightarrow> channel \<Rightarrow> (server, status \<times> channel) io" where
  "CreateWrongthinkChannel db request response = try_catch
     (bind_io (on_db (createChannel db (cc_name request) (cc_communityid request)
                        (cc_adminid request) (cc_anonymous request)))
        (\<lambda>channelid. ret (status_ok, response\<lparr>ch_id := channelid\<rparr>)))
     (ret (Status INTERNAL [], response))"

definition CreateWrongthinkCommunity ::
  "db_interface \<Rightarrow> create_community_request \<Rightarrow> community \<Rightarrow> (server, status \<times> community) io" where
  "CreateWrongthinkCommunity db request response = try_catch
     (bind_io (on_db (createCommunity db (co_name request) (co_adminid request) (co_public request)))
        (\<lambda>communityid. ret (status_ok, response\<lparr>com_id := communityid\<rparr>)))
     (ret (Status INTERNAL [], response))"

section \<open>Messages\<close>

text \<open>
  \<^verbatim>\<open>checkForChannel\<close>: a channel that is not live yet is looked up by its id and, if it
  exists, made live under its stored name.
\<close>

definition emplace :: "int \<Rightarrow> string \<Rightarrow> (server, unit) io" where
  "emplace i n s = (Inr (), s\<lparr>channelMap := (if channelMap s i = None
     then (channelMap s)(i \<mapsto> SynchronizedChannel_named i n) else channelMap s)\<rparr>)"

definition is_live :: "int \<Rightarrow> (server, bool) io" where
  "is_live i s = (Inr (channelMap s i \<noteq> None), s)"

definition checkForChannel :: "env \<Rightarrow> db_interface \<Rightarrow> int \<Rightarrow> (server, bool) io" where
  "checkForChannel E db channelid =
     bind_io (is_live channelid) (\<lambda>live.
     if \<not> live
     then bind_io (on_db (getChannelRow db channelid)) (\<lambda>r.
          if \<not> (case r of None \<Rightarrow> no_row_null E | Some v \<Rightarrow> v = Null)
          then bind_io (lift_sum (case r of None \<Rightarrow> no_row_name E | Some v \<Rightarrow> soci_string E v)) (\<lambda>n.
               bind_io (emplace channelid n) (\<lambda>_. ret True))
          else ret False)
     else ret True)"

text \<open>\<^verbatim>\<open>channelMap[id].appendMessage(msg)\<close>: \<^verbatim>\<open>operator[]\<close> would create a missing
  entry.\<close>

definition append_live :: "int \<Rightarrow> message \<Rightarrow> (server, unit) io" where
  "append_live i msg s = (Inr (), s\<lparr>channelMap := (channelMap s)(i \<mapsto> appendMessage msg
     (case channelMap s i of None \<Rightarrow> SynchronizedChannel_default | Some c \<Rightarrow> c))\<rparr>)"

definition insert_message :: "env \<Rightarrow> message \<Rightarrow> (world, unit) io" where
  "insert_message E msg = exec E (insert_into E Messages
     [(''user_id'', Val (IntV (msg_userid msg))), (''channel'', Val (IntV (msg_channelid msg))),
      (''thread_id'', Val (IntV (msg_threadid msg))), (''thread_child'', Val (IntV (msg_threadchild msg))),
      (''mtext'', Val (TextV (msg_text msg)))])"

definition SendWrongthinkMessageWeb ::
  "env \<Rightarrow> db_interface \<Rightarrow> message \<Rightarrow> (server, status) io" where
  "SendWrongthinkMessageWeb E db msg = try_catch
     (bind_io (on_db (getSociSession E)) (\<lambda>_.
      bind_io (checkForChannel E db (msg_channelid msg)) (\<lambda>ok.
      if \<not> ok then ret (Status INVALID_ARGUMENT [])
      else bind_io (append_live (msg_channelid msg) msg) (\<lambda>_.
           bind_io (on_db (insert_message E msg)) (\<lambda>_. ret status_ok)))))
     (ret (Status INTERNAL []))"

text \<open>\<^verbatim>\<open>sql.prepare\<close> of the insert statement checks its table and its columns.\<close>

definition prepare_message :: "env \<Rightarrow> (world, unit) io" where
  "prepare_message E = query E (\<lambda>d. case d Messages of None \<Rightarrow> Inl UndefinedTable
     | Some tb \<Rightarrow> if list_all (\<lambda>n. find_column (cols tb) n \<noteq> None)
          [''user_id'', ''channel'', ''thread_id'', ''thread_child'', ''mtext'']
        then Inr () else Inl UndefinedColumn)"

function send_loop :: "env \<Rightarrow> db_interface \<Rightarrow> message reader \<Rightarrow> (server, status) io" where
  "send_loop E db rd = (case Read rd of
      Inl e \<Rightarrow> raise e
    | Inr (None, _) \<Rightarrow> ret status_ok
    | Inr (Some msg, rd') \<Rightarrow>
        bind_io (checkForChannel E db (msg_channelid msg)) (\<lambda>ok.
        if \<not> ok then ret (Status INVALID_ARGUMENT [])
        else bind_io (append_live (msg_channelid msg) msg) (\<lambda>_.
             bind_io (on_db (insert_message E msg)) (\<lambda>_.
             send_loop E db rd'))))"
  by pat_completeness auto
termination
  by (relation "measure (\<lambda>(E, db, rd). length (objList rd) - pos rd)")
     (auto simp: Read_def split: if_splits)

declare send_loop.simps [simp del]

definition SendWrongthinkMessageImpl ::
  "env \<Rightarrow> db_interface \<Rightarrow> message reader \<Rightarrow> (server, status) io" where
  "SendWrongthinkMessageImpl E db rd = try_catch
     (bind_io (on_db (getSociSession E)) (\<lambda>_.
      bind_io (on_db (prepare_message E)) (\<lambda>_. send_loop E db rd)))
     (ret (Status INTERNAL []))"

text \<open>
  \<^verbatim>\<open>ListenWrongthinkMessagesImpl\<close> has no \<^verbatim>\<open>try\<close> block: an exception leaves the
  handler. \<open>Listening i\<close>: the handler has entered its endless loop on channel \<open>i\<close>, which
  is a thread of the theory \<open>Listeners\<close>.
\<close>

datatype listen_outcome = Returned status | Listening int

definition ListenWrongthinkMessagesImpl ::
  "env \<Rightarrow> db_interface \<Rightarrow> int \<Rightarrow> (server, listen_outcome) io" where
  "ListenWrongthinkMessagesImpl E db channelid =
     bind_io (on_db (getSociSession E)) (\<lambda>_.
     bind_io (checkForChannel E db channelid) (\<lambda>ok.
     if \<not> ok then ret (Returned (Status INVALID_ARGUMENT []))
     else ret (Listening channelid)))"

text \<open>The limit and the lower bounds of the request are read and not used.\<close>

record get_messages_request =
  gm_channelid :: int
  gm_limit :: int
  gm_afterid :: int
  gm_afterdate :: int

definition read_message :: "env \<Rightarrow> header \<Rightarrow> int \<Rightarrow> sqlval list \<Rightarrow> exn + message" where
  "read_message E h channelid row =
     bind_sum (named_string E h row ''uname'') (\<lambda>uname.
     bind_sum (named_int E h row ''user_id'') (\<lambda>userid.
     bind_sum (named_int E h row ''thread_id'') (\<lambda>threadid.
     bind_sum (named_int E h row ''thread_child'') (\<lambda>threadchild.
     bind_sum (named_int E h row ''edited'') (\<lambda>edited.
     bind_sum (named_string E h row ''mtext'') (\<lambda>mtext.
     bind_sum (named_int E h row ''mdate'') (\<lambda>mdate.
     bind_sum (named_int E h row ''msg_id'') (\<lambda>msg_id.
     Inr (empty_message\<lparr>msg_uname := uname, msg_channelid := channelid, msg_userid := userid,
       msg_threadid := threadid, msg_threadchild := pb_flag E threadchild,
       msg_edited := pb_flag E edited, msg_text := mtext, msg_date := mdate,
       msg_messageid := msg_id\<rparr>)))))))))"

definition GetWrongthinkMessagesImpl ::
  "env \<Rightarrow> db_interface \<Rightarrow> get_messages_request \<Rightarrow> (server \<times> message list, status) io" where
  "GetWrongthinkMessagesImpl E db request = try_catch
     (bind_io (on_server (on_db (getSociSession E))) (\<lambda>_.
      bind_io (on_server (on_db (getChannelMessages db (gm_channelid request)))) (\<lambda>rs.
      bind_io (for_rows (snd rs) (\<lambda>row.
         bind_io (lift_sum (read_message E (fst rs) (gm_channelid request) row)) Write))
      (\<lambda>_. ret status_ok))))
     (ret (Status INTERNAL []))"

section \<open>The registered methods\<close>

text \<open>The methods that gRPC calls drop the context, wrap the stream and call the testable
  function; the stream of a client is the list of what it sends.\<close>

definition GetWrongthinkCommunities ::
  "env \<Rightarrow> db_interface \<Rightarrow> metadata \<Rightarrow> (server \<times> community list, status) io" where
  "GetWrongthinkCommunities E db context = GetWrongthinkCommunitiesImpl E db"

definition GetWrongthinkChannels ::
  "env \<Rightarrow> db_interface \<Rightarrow> metadata \<Rightarrow> int \<Rightarrow> (server \<times> channel list, status) io" where
  "GetWrongthinkChannels E db context communityid = GetWrongthinkChannelsImpl E db communityid"

definition SendWrongthinkMessage ::
  "env \<Rightarrow> db_interface \<Rightarrow> metadata \<Rightarrow> message list \<Rightarrow> (server, status) io" where
  "SendWrongthinkMessage E db context msgs = SendWrongthinkMessageImpl E db (open_reader msgs)"

definition ListenWrongthinkMessages ::
  "env \<Rightarrow> db_interface \<Rightarrow> metadata \<Rightarrow> int \<Rightarrow> (server, listen_outcome) io" where
  "ListenWrongthinkMessages E db context channelid = ListenWrongthinkMessagesImpl E db channelid"

definition GetWrongthinkMessages ::
  "env \<Rightarrow> db_interface \<Rightarrow> metadata \<Rightarrow> get_messages_request \<Rightarrow> (server \<times> message list, status) io" where
  "GetWrongthinkMessages E db context request = GetWrongthinkMessagesImpl E db request"

end
