(* ===== verification/Contract.thy ===== *)
theory Contract
  imports Engines MessageDb Service
begin

text \<open>
  The contract between the RPC handlers and \<^verbatim>\<open>DBInterface\<close>: every method preserves
  the invariant of the stored data, the two checks on users answer from the user directory, and
  the two queries behind the messages answer from the table of channels and the history.
  The handlers' invariants and the authorisation of \<^verbatim>\<open>BanUser\<close> are proved from the
  contract alone; both back ends provide it.
\<close>

locale db_contract = backend +
  fixes db :: db_interface
  assumes keeps_methods:
      "keeps inv_world (isUserValid db u k)" "keeps inv_world (isUserAdmin db u)"
      "keeps inv_world (isUserModerator db u c)" "keeps inv_world (isUserBanned db u ip)"
      "keeps inv_world (isIPBanned db ip)" "keeps inv_world (banUser db u n)"
      "keeps inv_world (createUser db u k a)" "keeps inv_world (createChannel db u c i a)"
      "keeps inv_world (createCommunity db u i a)" "keeps inv_world (getCommunityRowset db)"
      "keeps inv_world (getCommunityChannelsRowset db c)" "keeps inv_world (getChannelMessages db c)"
      "keeps inv_world (getChannelRow db c)"
    and valid_law: "inv_world w \<Longrightarrow> isUserValid db u k w = bind_io (getSociSession E)
      (\<lambda>_ w'. (Inr (valid_credentials (directory (tabs w)) u k), w'\<lparr>ticks := Suc (ticks w)\<rparr>)) w"
    and admin_law: "inv_world w \<Longrightarrow> isUserAdmin db u w = bind_io (getSociSession E)
      (\<lambda>_ w'. (Inr (is_admin (directory (tabs w)) u), w'\<lparr>ticks := Suc (ticks w)\<rparr>)) w"
    and channel_law: "inv_world w \<Longrightarrow> getChannelRow db i w =
      (Inr (map_option TextV (channel_name (tabs w) i)), w\<lparr>ticks := Suc (ticks w)\<rparr>)"
    and messages_law: "inv_world w \<Longrightarrow> getChannelMessages db i w =
      (Inr (message_header, history (tabs w) i), w\<lparr>ticks := Suc (ticks w)\<rparr>)"

text \<open>Every deployment provides the contract.\<close>

lemma deployment_contract:
  assumes dep: "deployment E sch db"
  shows "db_contract E sch db"
proof -
  note b = deployment_backend [OF dep]
  show ?thesis
  proof (intro db_contract.intro b db_contract_axioms.intro)
    fix w :: world and u k assume inv: "server_inv E sch (tabs w)"
    show "isUserValid db u k w = bind_io (getSociSession E)
      (\<lambda>_ w'. (Inr (valid_credentials (directory (tabs w)) u k), w'\<lparr>ticks := Suc (ticks w)\<rparr>)) w"
      using backend.isUserValid_run [OF b inv] unfolding deployment_methods [OF dep]
      by (cases "session_up E (sessions w)")
         (simp_all add: pg_isUserValid_def bind_io_def session_ok session_fails)
  next
    fix w :: world and u assume inv: "server_inv E sch (tabs w)"
    show "isUserAdmin db u w = bind_io (getSociSession E)
      (\<lambda>_ w'. (Inr (is_admin (directory (tabs w)) u), w'\<lparr>ticks := Suc (ticks w)\<rparr>)) w"
      using backend.isUserAdmin_run [OF b inv] unfolding deployment_methods [OF dep]
      by (cases "session_up E (sessions w)")
         (simp_all add: pg_isUserAdmin_def bind_io_def session_ok session_fails)
  next
    fix w :: world and i assume inv: "server_inv E sch (tabs w)"
    show "getChannelRow db i w = (Inr (map_option TextV (channel_name (tabs w) i)), w\<lparr>ticks := Suc (ticks w)\<rparr>)"
      unfolding deployment_methods [OF dep] by (rule backend.getChannelRow_run [OF b inv])
  next
    fix w :: world and i assume inv: "server_inv E sch (tabs w)"
    show "getChannelMessages db i w = (Inr (message_header, history (tabs w) i), w\<lparr>ticks := Suc (ticks w)\<rparr>)"
      unfolding deployment_methods [OF dep] by (rule backend.getChannelMessages_run [OF b inv])
  qed (unfold deployment_methods [OF dep],
       (rule backend.keeps_isUserValid [OF b] backend.keeps_isUserAdmin [OF b]
         backend.keeps_isUserModerator [OF b] backend.keeps_isUserBanned [OF b]
         backend.keeps_isIPBanned [OF b] backend.keeps_banUser [OF b] backend.keeps_createUser [OF b]
         backend.keeps_createChannel [OF b] backend.keeps_createCommunity [OF b]
         backend.keeps_rowsets [OF b])+)
qed

interpretation pg_store: db_contract "postgres_env clk up mk nul name" pg_schema
    "pg_db (postgres_env clk up mk nul name)" for clk up mk nul name
  by (rule deployment_contract [OF deployment_postgres])

interpretation sqlite_store: db_contract "sqlite_env clk up mk nul name" sqlite_schema
    "sqlite_db (sqlite_env clk up mk nul name)" for clk up mk nul name
  by (rule deployment_contract [OF deployment_sqlite])

section \<open>Invariants of the handlers\<close>

lemma keeps_on_db [keeps_intros]:
  "keeps (\<lambda>w. P (tabs w)) m \<Longrightarrow> keeps (\<lambda>s. P (tabs (world_of s))) (on_db m)"
  by (auto simp: keeps_def on_db_def split_beta Let_def)

lemma keeps_on_server [keeps_intros]:
  "keeps P m \<Longrightarrow> keeps (\<lambda>st. P (fst st)) (on_server m)"
  by (auto simp: keeps_def on_server_def split_beta Let_def)

lemma keeps_Write [keeps_intros]: "keeps (\<lambda>st. P (fst st)) (Write obj)"
  by (simp add: keeps_def Write_def)

lemma keeps_for_rows [keeps_intros]: "(\<And>r. keeps P (f r)) \<Longrightarrow> keeps P (for_rows rs f)"
  by (induction rs) (simp_all add: keeps_ret keeps_bind)

lemma keeps_map_ops [keeps_intros]:
  "keeps (\<lambda>s. P (tabs (world_of s))) (emplace i n)"
  "keeps (\<lambda>s. P (tabs (world_of s))) (is_live i)"
  "keeps (\<lambda>s. P (tabs (world_of s))) (append_live i msg)"
  by (simp_all add: keeps_def emplace_def is_live_def append_live_def)

lemma keeps_prepare [keeps_intros]: "keeps (\<lambda>w. P (tabs w)) (prepare_message E)"
  unfolding prepare_message_def by (intro keeps_intros)

context db_contract
begin

lemma suit_message:
  "assigns_suit E (sch Messages)
     [(''user_id'', Val (IntV a)), (''channel'', Val (IntV b)), (''thread_id'', Val (IntV c)),
      (''thread_child'', Val (IntV e)), (''mtext'', Val (TextV t))]"
  using backend_schema
  by (auto simp: assigns_suit_def suits_def find_column_def plain_def auto_col_def)

lemma keeps_insert_message: "keeps inv_world (insert_message E msg)"
  unfolding insert_message_def by (rule keeps_insert [OF suit_message])

abbreviation inv_server :: "server \<Rightarrow> bool" where
  "inv_server s \<equiv> inv_world (world_of s)"

lemma keeps_BanUser: "keeps inv_server (BanUser db meta request response)"
  unfolding BanUser_def by (intro keeps_intros keeps_methods)

lemma keeps_CreateUser: "keeps inv_server (CreateUser E db request u)"
  unfolding CreateUser_def by (intro keeps_intros keeps_methods)

lemma keeps_GenerateUser: "GenerateUser E db e1 e2 u = Some m \<Longrightarrow> keeps inv_server m"
  unfolding GenerateUser_def Let_def
  by (auto split: option.splits sum.splits intro!: keeps_intros keeps_methods)

lemma keeps_creates:
  "keeps inv_server (CreateWrongthinkChannel db cr c)"
  "keeps inv_server (CreateWrongthinkCommunity db cor com)"
  unfolding CreateWrongthinkChannel_def CreateWrongthinkCommunity_def
  by (intro keeps_intros keeps_methods)+

lemma keeps_reads:
  "keeps (\<lambda>st. inv_server (fst st)) (GetWrongthinkCommunitiesImpl E db)"
  "keeps (\<lambda>st. inv_server (fst st)) (GetWrongthinkChannelsImpl E db c)"
  "keeps (\<lambda>st. inv_server (fst st)) (GetWrongthinkMessagesImpl E db gm)"
  unfolding GetWrongthinkCommunitiesImpl_def GetWrongthinkChannelsImpl_def GetWrongthinkMessagesImpl_def
  by (intro keeps_intros keeps_methods)+

lemma keeps_checkForChannel: "keeps inv_server (checkForChannel E db i)"
  unfolding checkForChannel_def by (intro keeps_intros keeps_methods)

lemma keeps_send_loop: "keeps inv_server (send_loop E db rd)"
proof (induction "length (objList rd) - pos rd" arbitrary: rd rule: less_induct)
  case less
  have "keeps inv_server (send_loop E db rd')" if "Read rd = Inr (Some m, rd')" for m rd'
    by (rule less) (use that in \<open>auto simp: Read_def split: if_splits\<close>)
  then show ?case
    by (subst send_loop.simps)
       (auto split: sum.splits option.splits prod.splits
         intro!: keeps_intros keeps_checkForChannel keeps_insert_message)
qed

lemma keeps_sends:
  "keeps inv_server (SendWrongthinkMessageWeb E db msg)"
  "keeps inv_server (SendWrongthinkMessageImpl E db rd)"
  "keeps inv_server (ListenWrongthinkMessagesImpl E db c)"
  unfolding SendWrongthinkMessageWeb_def SendWrongthinkMessageImpl_def ListenWrongthinkMessagesImpl_def
  by (intro keeps_intros keeps_checkForChannel keeps_insert_message keeps_send_loop)+

end

end
