(* ===== verification/Handlers.thy ===== *)
theory Handlers
  imports Contract
begin

text \<open>
  What the RPC handlers do, in terms of the contract of \<open>Contract\<close>: who may ban, when a message
  reaches the live channel and the database, and how channels become live.
\<close>

section \<open>Authorisation\<close>

definition authorised :: "directory \<Rightarrow> metadata \<Rightarrow> bool" where
  "authorised m meta \<longleftrightarrow> hasCredentials meta \<and> (case getCredentials meta of
     Inl e \<Rightarrow> False | Inr (u, k) \<Rightarrow> valid_credentials m u k \<and> is_admin m u)"

lemma getCredentials_defined:
  "hasCredentials meta \<Longrightarrow> \<exists>u k. getCredentials meta = Inr (u, k)"
  using mm_find_Some_iff [of meta AUTH_UNAME_KEY] mm_find_Some_iff [of meta AUTH_TOKEN_KEY]
  by (auto simp: hasCredentials_def getCredentials_def split: if_splits)

text \<open>A fresh identifier is the 32 digits of the UUID's bytes.\<close>

lemma fresh_id_random: "length bs = 16 \<Longrightarrow> fresh_id (Inr bs) = Some (Inr (random_digits bs))"
  by (simp add: fresh_id_def random_generator_def strip_random)

lemma random_digits_fit:
  assumes "length bs = 16"
  shows "utf8_length (random_digits bs) \<le> 50"
proof -
  have "utf8_length (random_digits bs) \<le> length (random_digits bs)"
    by (simp add: utf8_length_def)
  with random_digits_shape(1) [OF assms] show ?thesis by simp
qed

text \<open>A database state that differs in bookkeeping only.\<close>

definition same_data :: "server \<Rightarrow> server \<Rightarrow> bool" where
  "same_data s t \<longleftrightarrow> tabs (world_of s) = tabs (world_of t) \<and> channelMap s = channelMap t"

section \<open>Streams\<close>

text \<open>What a loop over rows writes has every property that each round's writes have.\<close>

definition writes_only :: "('o \<Rightarrow> bool) \<Rightarrow> (server \<times> 'o list, 'a) io \<Rightarrow> bool" where
  "writes_only Q m \<longleftrightarrow> (\<forall>st. \<exists>out. snd (snd (m st)) = snd st @ out \<and> list_all Q out)"

lemma writes_onlyD: "writes_only Q m \<Longrightarrow> list_all Q (snd (snd (m (s, []))))"
  unfolding writes_only_def by (metis append_Nil snd_conv)

lemma writes_only_Write: "Q obj \<Longrightarrow> writes_only Q (Write obj)"
  by (simp add: writes_only_def Write_def)

lemma writes_only_pure:
  "writes_only Q (ret a)" "writes_only Q (raise e)" "writes_only Q (lift_sum r)" "writes_only Q (on_server m)"
  by (simp_all add: writes_only_def on_server_def split_beta Let_def)

lemma writes_only_bind:
  assumes "writes_only Q m" and "\<And>a s s'. m s = (Inr a, s') \<Longrightarrow> writes_only Q (f a)"
  shows "writes_only Q (bind_io m f)"
  unfolding writes_only_def
proof
  fix st
  obtain out where out: "snd (snd (m st)) = snd st @ out" "list_all Q out"
    using assms(1) unfolding writes_only_def by blast
  obtain r st' where run: "m st = (r, st')" by (rule prod.exhaust)
  show "\<exists>out. snd (snd (bind_io m f st)) = snd st @ out \<and> list_all Q out"
  proof (cases r)
    case (Inl e)
    with out run show ?thesis by (simp add: bind_io_def)
  next
    case (Inr a)
    then obtain out' where "snd (snd (f a st')) = snd st' @ out'" "list_all Q out'"
      using assms(2) run unfolding writes_only_def by blast
    with out run Inr show ?thesis by (intro exI [of _ "out @ out'"]) (simp add: bind_io_def)
  qed
qed

lemma writes_only_try:
  assumes "writes_only Q m"
  shows "writes_only Q (try_catch m (ret b))"
  unfolding writes_only_def
proof
  fix st
  have "snd (snd (try_catch m (ret b) st)) = snd (snd (m st))"
    by (simp add: try_catch_def split: prod.splits sum.splits)
  then show "\<exists>out. snd (snd (try_catch m (ret b) st)) = snd st @ out \<and> list_all Q out"
    using assms unfolding writes_only_def by metis
qed

lemma writes_only_rows: "(\<And>r. r \<in> set rs \<Longrightarrow> writes_only Q (f r)) \<Longrightarrow> writes_only Q (for_rows rs f)"
  by (induction rs) (auto intro: writes_only_pure writes_only_bind)

context db_contract
begin

lemma on_db_valid:
  assumes "inv_server s"
  shows "on_db (isUserValid db u k) s =
    (if session_up E (sessions (world_of s)) then Inr (valid_credentials (directory (tabs (world_of s))) u k)
     else Inl ConnectionFailed,
     s\<lparr>world_of := (world_of s)\<lparr>sessions := Suc (sessions (world_of s)),
        ticks := (if session_up E (sessions (world_of s)) then Suc (ticks (world_of s)) else ticks (world_of s))\<rparr>\<rparr>)"
  using valid_law [OF assms, of u k]
  by (simp add: on_db_def bind_io_def getSociSession_def)

lemma on_db_admin:
  assumes "inv_server s"
  shows "on_db (isUserAdmin db u) s =
    (if session_up E (sessions (world_of s)) then Inr (is_admin (directory (tabs (world_of s))) u)
     else Inl ConnectionFailed,
     s\<lparr>world_of := (world_of s)\<lparr>sessions := Suc (sessions (world_of s)),
        ticks := (if session_up E (sessions (world_of s)) then Suc (ticks (world_of s)) else ticks (world_of s))\<rparr>\<rparr>)"
  using admin_law [OF assms, of u]
  by (simp add: on_db_def bind_io_def getSociSession_def)

lemma BanUser_rejects:
  assumes inv: "inv_server s" and no: "\<not> authorised (directory (tabs (world_of s))) meta"
  obtains c why s' where "BanUser db meta request response s = (Inr (Status c why, response), s')"
    and "c = UNAUTHENTICATED \<or> c = INTERNAL" and "same_data s' s"
proof (cases "hasCredentials meta")
  case False
  then show thesis
    by (intro that [of UNAUTHENTICATED _ s]) (simp_all add: BanUser_def try_catch_def same_data_def)
next
  case True
  then obtain u k where cr: "getCredentials meta = Inr (u, k)" using getCredentials_defined by blast
  let ?m = "directory (tabs (world_of s))"
  let ?s1 = "s\<lparr>world_of := (world_of s)\<lparr>sessions := Suc (sessions (world_of s)), ticks := Suc (ticks (world_of s))\<rparr>\<rparr>"
  have inv1: "inv_server ?s1" using inv by simp
  note run = BanUser_def try_catch_def bind_io_def True cr on_db_valid [OF inv] on_db_admin [OF inv1]
  show thesis
  proof (cases "session_up E (sessions (world_of s)) \<and> valid_credentials ?m u k")
    case False
    then show thesis
      by (cases "session_up E (sessions (world_of s))")
         (auto intro!: that simp: run same_data_def)
  next
    case valid: True
    then have "\<not> is_admin ?m u" using no True cr by (simp add: authorised_def)
    with valid show thesis
      by (cases "session_up E (Suc (sessions (world_of s)))")
         (auto intro!: that simp: run same_data_def)
  qed
qed

text \<open>For an administrator the handler is \<^verbatim>\<open>banUser\<close>, with its exceptions turned into a
  status.\<close>

lemma BanUser_runs:
  assumes inv: "inv_server s" and ok: "authorised (directory (tabs (world_of s))) meta"
    and up: "session_up E (sessions (world_of s))" "session_up E (Suc (sessions (world_of s)))"
    and run: "banUser db (ban_uname request) (ban_days request)
      ((world_of s)\<lparr>sessions := sessions (world_of s) + 2, ticks := ticks (world_of s) + 2\<rparr>) = (r, w')"
    and e: "r \<noteq> Inl Undefined"
  shows "BanUser db meta request response s =
    (Inr (case r of Inr _ \<Rightarrow> (status_ok, ''test'') | Inl e \<Rightarrow> (Status INTERNAL [], response)),
     s\<lparr>world_of := w'\<rparr>)"
proof -
  obtain u k where cr: "hasCredentials meta" "getCredentials meta = Inr (u, k)"
      "valid_credentials (directory (tabs (world_of s))) u k" "is_admin (directory (tabs (world_of s))) u"
    using ok by (auto simp: authorised_def split: sum.splits)
  let ?s1 = "s\<lparr>world_of := (world_of s)\<lparr>sessions := Suc (sessions (world_of s)), ticks := Suc (ticks (world_of s))\<rparr>\<rparr>"
  have inv1: "inv_server ?s1" using inv by simp
  have ban: "on_db (banUser db (ban_uname request) (ban_days request))
      (?s1\<lparr>world_of := (world_of ?s1)\<lparr>sessions := Suc (sessions (world_of ?s1)), ticks := Suc (ticks (world_of ?s1))\<rparr>\<rparr>) =
      (r, s\<lparr>world_of := w'\<rparr>)"
    using run by (simp add: on_db_def numeral_eq_Suc)
  show ?thesis
    using up cr ban e
    by (cases r) (simp_all add: BanUser_def try_catch_def bind_io_def on_db_valid [OF inv] on_db_admin [OF inv1])
qed

section \<open>Live channels and messages\<close>

lemma checkForChannel_live:
  "channelMap s i = Some c \<Longrightarrow> checkForChannel E db i s = (Inr True, s)"
  by (simp add: checkForChannel_def bind_io_def is_live_def)

lemma SendWeb_live:
  assumes live: "channelMap s (msg_channelid msg) = Some c" and up: "session_up E (sessions (world_of s))"
    and ins: "insert_message E msg ((world_of s)\<lparr>sessions := Suc (sessions (world_of s))\<rparr>) = (r, w')"
    and e: "r \<noteq> Inl Undefined"
  shows "SendWrongthinkMessageWeb E db msg s =
    (Inr (case r of Inr _ \<Rightarrow> status_ok | Inl e \<Rightarrow> Status INTERNAL []),
     s\<lparr>world_of := w', channelMap := (channelMap s)(msg_channelid msg \<mapsto> appendMessage msg c)\<rparr>)"
proof -
  let ?s1 = "s\<lparr>world_of := (world_of s)\<lparr>sessions := Suc (sessions (world_of s))\<rparr>\<rparr>"
  have "on_db (getSociSession E) s = (Inr (), ?s1)"
    using up by (simp add: on_db_def session_ok)
  moreover have "checkForChannel E db (msg_channelid msg) ?s1 = (Inr True, ?s1)"
    by (rule checkForChannel_live) (simp add: live)
  ultimately show ?thesis
    using live ins e
    by (cases r) (simp_all add: SendWrongthinkMessageWeb_def try_catch_def bind_io_def append_live_def on_db_def)
qed

end

end
