(* ===== verification/Messaging.thy ===== *)
theory Messaging
  imports Handlers
begin

text \<open>
  Sending and reading messages, from the contract of \<open>Contract\<close>: when a channel becomes live,
  what \<^verbatim>\<open>SendWrongthinkMessageWeb\<close> stores, and what
  \<^verbatim>\<open>GetWrongthinkMessages\<close> returns.
\<close>

section \<open>Reading rows into a stream\<close>

text \<open>A loop that writes one object per row stops at the first row that cannot be read.\<close>

fun read_all :: "('r \<Rightarrow> exn + 'o) \<Rightarrow> 'r list \<Rightarrow> (exn + unit) \<times> 'o list" where
  "read_all g [] = (Inr (), [])"
| "read_all g (r # rs) = (case g r of Inl e \<Rightarrow> (Inl e, [])
     | Inr x \<Rightarrow> (let (res, xs) = read_all g rs in (res, x # xs)))"

lemma for_rows_read_all:
  "for_rows rs (\<lambda>r. bind_io (lift_sum (g r)) Write) (s, out) =
     (fst (read_all g rs), (s, out @ snd (read_all g rs)))"
  by (induction rs arbitrary: out)
     (simp_all add: bind_io_def Write_def Let_def split_beta split: sum.splits)

lemma read_all_snoc:
  assumes "fst (read_all g rs) = Inr ()" and "g r = Inr x"
  shows "read_all g (rs @ [r]) = (Inr (), snd (read_all g rs) @ [x])"
  using assms
  by (induction rs) (auto simp: Let_def split_beta split: sum.splits)

lemma read_all_cong: "(\<And>r. r \<in> set rs \<Longrightarrow> g r = Inr (h r)) \<Longrightarrow> read_all g rs = (Inr (), map h rs)"
  by (induction rs) simp_all

section \<open>The handlers\<close>

definition message_ok :: "message \<Rightarrow> bool" where
  "message_ok m \<longleftrightarrow> int32 (msg_userid m) \<and> int32 (msg_channelid m) \<and> int32 (msg_threadid m) \<and>
     (msg_threadchild m = 0 \<or> msg_threadchild m = 1)"

text \<open>A message as it is stored: the author's name is the registered one, the id and the date
  come from the database.\<close>

definition stored_message :: "message \<Rightarrow> string \<Rightarrow> int \<Rightarrow> int \<Rightarrow> message" where
  "stored_message m n i now = m\<lparr>msg_uname := n, msg_channelname := [], msg_edited := 0,
     msg_date := now, msg_messageid := i\<rparr>"

text \<open>The live channel that a message for channel \<open>i\<close>, stored under the name \<open>n\<close>, goes to.\<close>

definition live_or_new :: "server \<Rightarrow> int \<Rightarrow> string \<Rightarrow> sync_channel" where
  "live_or_new s i n = (case channelMap s i of Some c \<Rightarrow> c | None \<Rightarrow> SynchronizedChannel_named i n)"

context db_contract
begin

lemma GetMessages_run:
  fixes req :: get_messages_request
  assumes inv: "inv_server s" and up: "session_up E (sessions (world_of s))"
  defines "R \<equiv> read_all (read_message E message_header (gm_channelid req))
      (history (tabs (world_of s)) (gm_channelid req))"
  shows "GetWrongthinkMessagesImpl E db req (s, []) =
    (case fst R of Inr _ \<Rightarrow> Inr status_ok | Inl e \<Rightarrow> if e = Undefined then Inl Undefined else Inr (Status INTERNAL []),
     (s\<lparr>world_of := (world_of s)\<lparr>sessions := Suc (sessions (world_of s)), ticks := Suc (ticks (world_of s))\<rparr>\<rparr>,
      snd R))"
proof -
  let ?w = "(world_of s)\<lparr>sessions := Suc (sessions (world_of s))\<rparr>"
  have "on_server (on_db (getSociSession E)) (s, [] :: message list) = (Inr (), (s\<lparr>world_of := ?w\<rparr>, []))"
    using up by (simp add: on_server_def on_db_def session_ok)
  moreover have "on_server (on_db (getChannelMessages db (gm_channelid req))) (s\<lparr>world_of := ?w\<rparr>, [] :: message list) =
      (Inr (message_header, history (tabs (world_of s)) (gm_channelid req)),
       (s\<lparr>world_of := ?w\<lparr>ticks := Suc (ticks (world_of s))\<rparr>\<rparr>, []))"
    using messages_law [of ?w] inv by (simp add: on_server_def on_db_def)
  ultimately show ?thesis
    by (cases "fst R") (simp_all add: GetWrongthinkMessagesImpl_def try_catch_def bind_io_def for_rows_read_all R_def)
qed

lemma checkForChannel_run:
  assumes inv: "inv_server s" and new: "channelMap s i = None"
  defines "w' \<equiv> (world_of s)\<lparr>ticks := Suc (ticks (world_of s))\<rparr>"
  shows "channel_name (tabs (world_of s)) i = Some n \<Longrightarrow> checkForChannel E db i s =
      (Inr True, s\<lparr>world_of := w', channelMap := (channelMap s)(i \<mapsto> SynchronizedChannel_named i n)\<rparr>)"
    and "channel_name (tabs (world_of s)) i = None \<Longrightarrow> no_row_null E \<Longrightarrow> checkForChannel E db i s =
      (Inr False, s\<lparr>world_of := w'\<rparr>)"
  using new channel_law [OF inv, of i] soci_string_TextV
  by (simp_all add: checkForChannel_def bind_io_def is_live_def on_db_def emplace_def w'_def)

text \<open>\<^verbatim>\<open>SendWrongthinkMessageWeb\<close> up to the insert.\<close>

lemma SendWeb_known:
  assumes inv: "inv_server s" and up: "session_up E (sessions (world_of s))"
    and name: "channel_name (tabs (world_of s)) (msg_channelid msg) = Some n"
  obtains k where "k = ticks (world_of s) \<or> k = Suc (ticks (world_of s))"
    and "\<And>r w'. insert_message E msg ((world_of s)\<lparr>sessions := Suc (sessions (world_of s)), ticks := k\<rparr>) = (r, w') \<Longrightarrow>
    r \<noteq> Inl Undefined \<Longrightarrow>
    SendWrongthinkMessageWeb E db msg s =
    (Inr (case r of Inr _ \<Rightarrow> status_ok | Inl e \<Rightarrow> Status INTERNAL []),
     s\<lparr>world_of := w', channelMap := (channelMap s)(msg_channelid msg \<mapsto>
        appendMessage msg (live_or_new s (msg_channelid msg) n))\<rparr>)"
proof (cases "channelMap s (msg_channelid msg)")
  case (Some c)
  have same: "(world_of s)\<lparr>sessions := x, ticks := ticks (world_of s)\<rparr> = (world_of s)\<lparr>sessions := x\<rparr>" for x
    by (cases "world_of s") simp
  show thesis
  proof (rule that [of "ticks (world_of s)"], simp, unfold same)
    fix r w' assume "insert_message E msg ((world_of s)\<lparr>sessions := Suc (sessions (world_of s))\<rparr>) = (r, w')"
      and "r \<noteq> Inl Undefined"
    from SendWeb_live [OF Some up this] show "SendWrongthinkMessageWeb E db msg s =
      (Inr (case r of Inr _ \<Rightarrow> status_ok | Inl e \<Rightarrow> Status INTERNAL []),
       s\<lparr>world_of := w', channelMap := (channelMap s)(msg_channelid msg \<mapsto>
         appendMessage msg (live_or_new s (msg_channelid msg) n))\<rparr>)"
      using Some by (simp add: live_or_new_def)
  qed
next
  case None
  let ?w = "(world_of s)\<lparr>sessions := Suc (sessions (world_of s))\<rparr>"
  let ?s1 = "s\<lparr>world_of := ?w\<rparr>"
  let ?i = "msg_channelid msg"
  have open_: "on_db (getSociSession E) s = (Inr (), ?s1)" using up by (simp add: on_db_def session_ok)
  have check: "checkForChannel E db ?i ?s1 = (Inr True, s\<lparr>world_of := ?w\<lparr>ticks := Suc (ticks (world_of s))\<rparr>,
      channelMap := (channelMap s)(?i \<mapsto> SynchronizedChannel_named ?i n)\<rparr>)"
    using checkForChannel_run(1) [of ?s1 ?i n] inv None name by simp
  show thesis
  proof (rule that [of "Suc (ticks (world_of s))"], simp)
    fix r w' assume ins: "insert_message E msg (?w\<lparr>ticks := Suc (ticks (world_of s))\<rparr>) = (r, w')" and e: "r \<noteq> Inl Undefined"
    show "SendWrongthinkMessageWeb E db msg s =
      (Inr (case r of Inr _ \<Rightarrow> status_ok | Inl e \<Rightarrow> Status INTERNAL []),
       s\<lparr>world_of := w', channelMap := (channelMap s)(?i \<mapsto> appendMessage msg (live_or_new s ?i n))\<rparr>)"
      using open_ check ins e None
      by (cases r) (simp_all add: SendWrongthinkMessageWeb_def try_catch_def bind_io_def append_live_def on_db_def
          live_or_new_def)
  qed
qed

lemma insert_message_run:
  assumes inv: "inv_world w" and tb: "tabs w Messages = Some tb" and id: "int32 (next_id tb 0)"
    and msg: "message_ok msg" and now: "int32 (clock E (ticks w))"
  defines "needed \<equiv> [(Users, msg_userid msg), (Channels, msg_channelid msg)]"
  shows "insert_message E msg w =
    (if fk_enforced E \<and> \<not> refs_present (tabs w) needed
     then (Inl ForeignKeyViolation, w\<lparr>tabs := (tabs w)(Messages \<mapsto> bump tb), ticks := Suc (ticks w)\<rparr>)
     else (Inr (), w\<lparr>tabs := (tabs w)(Messages \<mapsto> with_row tb
       [IntV (next_id tb 0), IntV (msg_userid msg), IntV (msg_channelid msg), IntV (msg_threadid msg),
        IntV (msg_threadchild msg), IntV 0, TextV (msg_text msg), IntV (clock E (ticks w))]),
       ticks := Suc (ticks w)\<rparr>))"
  using insert_message_row [OF inv tb id _ _ _ _ now] msg
  by (simp add: insert_message_def exec_def message_ok_def needed_def del: fun_upd_apply)

text \<open>The two columns called \<^verbatim>\<open>user_id\<close> of a joined row agree, so it does not matter
  which one SOCI reads.\<close>

lemma read_message_row:
  assumes tc: "tc = 0 \<or> tc = 1"
  shows "read_message E message_header ch
      ([IntV i, IntV u, IntV c, IntV th, IntV tc, IntV 0, TextV txt, IntV now] @ [IntV u, TextV n, k, v]) =
    Inr (empty_message\<lparr>msg_uname := n, msg_channelid := ch, msg_userid := u, msg_threadid := th,
      msg_threadchild := tc, msg_edited := 0, msg_text := txt, msg_date := now, msg_messageid := i\<rparr>)"
proof -
  have pick: "pick_column E [x] = x" for x using pick_column_mem [of "[x]"] by simp
  have two: "pick_column E [1, 8] = 1 \<or> pick_column E [1, 8] = 8" using pick_column_mem [of "[1, 8]"] by simp
  then show ?thesis
    using tc by (auto simp: read_message_def named_int_def named_string_def named_def row_int_def row_string_def
        header_simps pick soci_int_IntV soci_string_TextV pb_flag_01 numeral_eq_Suc)
qed

text \<open>A message that was sent is the last one that the channel's history returns.\<close>

lemma send_then_read:
  fixes req :: get_messages_request
  assumes inv: "inv_server s"
    and up: "session_up E (sessions (world_of s))" "session_up E (Suc (sessions (world_of s)))"
    and clk: "int32 (clock E (ticks (world_of s)))" "int32 (clock E (Suc (ticks (world_of s))))"
    and user: "directory (tabs (world_of s)) n = Some (msg_userid msg, tok, adm)"
    and chan: "channel_name (tabs (world_of s)) (msg_channelid msg) = Some cn" and msg: "message_ok msg"
    and tb: "tabs (world_of s) Messages = Some tb" and id: "int32 (next_id tb 0)"
    and before: "GetWrongthinkMessagesImpl E db req (s, []) = (Inr status_ok, (s0, ms))"
    and req: "gm_channelid req = msg_channelid msg"
  obtains s1 s2 now where "SendWrongthinkMessageWeb E db msg s = (Inr status_ok, s1)"
    and "channelMap s1 = (channelMap s)(msg_channelid msg \<mapsto> appendMessage msg (live_or_new s (msg_channelid msg) cn))"
    and "GetWrongthinkMessagesImpl E db req (s1, []) =
      (Inr status_ok, (s2, ms @ [stored_message msg n (next_id tb 0) now]))"
proof -
  let ?d = "tabs (world_of s)" and ?ch = "msg_channelid msg"
  obtain v where y: "[IntV (msg_userid msg), TextV n, TextV tok, v] \<in> set (stored ?d Users)"
    using user directory_Some [OF inv] by auto
  then have eu: "entry_at ?d Users (msg_userid msg) \<noteq> None" by (auto simp: entry_at_Some [OF inv])
  have ec: "entry_at ?d Channels ?ch \<noteq> None" using chan by (auto simp: channel_name_def)
  obtain k where k: "k = ticks (world_of s) \<or> k = Suc (ticks (world_of s))"
    and send: "\<And>r w'. insert_message E msg ((world_of s)\<lparr>sessions := Suc (sessions (world_of s)), ticks := k\<rparr>) = (r, w') \<Longrightarrow>
      r \<noteq> Inl Undefined \<Longrightarrow> SendWrongthinkMessageWeb E db msg s =
      (Inr (case r of Inr _ \<Rightarrow> status_ok | Inl e \<Rightarrow> Status INTERNAL []),
       s\<lparr>world_of := w', channelMap := (channelMap s)(?ch \<mapsto> appendMessage msg (live_or_new s ?ch cn))\<rparr>)"
    by (rule SendWeb_known [OF inv up(1) chan]) blast
  let ?w = "(world_of s)\<lparr>sessions := Suc (sessions (world_of s)), ticks := k\<rparr>"
  let ?r = "[IntV (next_id tb 0), IntV (msg_userid msg), IntV ?ch, IntV (msg_threadid msg),
        IntV (msg_threadchild msg), IntV 0, TextV (msg_text msg), IntV (clock E k)]"
  let ?y = "[IntV (msg_userid msg), TextV n, TextV tok, v]"
  let ?w' = "?w\<lparr>tabs := ?d(Messages \<mapsto> with_row tb ?r), ticks := Suc k\<rparr>"
  let ?s1 = "s\<lparr>world_of := ?w', channelMap := (channelMap s)(?ch \<mapsto> appendMessage msg (live_or_new s ?ch cn))\<rparr>"
  have ins: "insert_message E msg ?w = (Inr (), ?w')"
    using insert_message_run [of ?w tb msg] inv tb id msg eu ec clk k by (auto simp: refs_present_def)
  have sent: "SendWrongthinkMessageWeb E db msg s = (Inr status_ok, ?s1)" using send [OF ins] by simp
  have inv1: "inv_server ?s1"
    using keepsD [OF keeps_insert_message, of ?w msg] inv ins by simp
  let ?g = "read_message E message_header ?ch"
  have hist: "history (tabs (world_of ?s1)) ?ch = history ?d ?ch @ [?r @ ?y]"
    using history_with_row [OF inv tb, of ?r "msg_userid msg" ?ch ?y ?ch] y by simp
  have R: "fst (read_all ?g (history ?d ?ch)) = Inr ()" "snd (read_all ?g (history ?d ?ch)) = ms"
    using before GetMessages_run [OF inv up(1), of req] req by (auto split: sum.splits if_splits)
  have new: "?g (?r @ ?y) = Inr (stored_message msg n (next_id tb 0) (clock E k))"
    using read_message_row [of "msg_threadchild msg" ?ch] msg
    by (cases msg) (simp add: message_ok_def stored_message_def empty_message_def)
  obtain s2 where "GetWrongthinkMessagesImpl E db req (?s1, []) =
      (Inr status_ok, (s2, ms @ [stored_message msg n (next_id tb 0) (clock E k)]))"
    using GetMessages_run [OF inv1, of req] up(2) req read_all_snoc [OF R(1) new] R(2) unfolding hist req by simp
  then show thesis using sent by (intro that [of ?s1]) simp_all
qed

end

section \<open>Properties\<close>

text \<open>A server with a community of two channels, none of them live.\<close>

definition chan_server :: server where
  "chan_server = \<lparr>world_of = chan_world, channelMap = (\<lambda>_. None)\<rparr>"

lemma chan_server_inv: "server_inv pg0 pg_schema (tabs (world_of chan_server))"
  by (simp add: chan_server_def chan_world_inv)

text \<open>C6 (message round trip). A message for a stored channel by a registered author is accepted
  and appended to the live channel, and the next \<^verbatim>\<open>GetWrongthinkMessages\<close> for that
  channel returns what it returned before, followed by this message under its author's registered
  name, with the id and the date that the database gave it.\<close>

theorem message_roundtrip:
  assumes dep: "deployment E sch db" and inv: "server_inv E sch (tabs (world_of s))"
    and up: "session_up E (sessions (world_of s))" "session_up E (Suc (sessions (world_of s)))"
    and clk: "int32 (clock E (ticks (world_of s)))" "int32 (clock E (Suc (ticks (world_of s))))"
    and user: "directory (tabs (world_of s)) n = Some (msg_userid msg, tok, adm)"
    and chan: "channel_name (tabs (world_of s)) (msg_channelid msg) = Some cn" and msg: "message_ok msg"
    and tb: "tabs (world_of s) Messages = Some tb" and id: "int32 (next_id tb 0)"
    and before: "GetWrongthinkMessages E db ctx req (s, []) = (Inr status_ok, (s0, ms))"
    and req: "gm_channelid req = msg_channelid msg"
  shows "\<exists>s1 s2 now. SendWrongthinkMessageWeb E db msg s = (Inr status_ok, s1) \<and>
    channelMap s1 = (channelMap s)(msg_channelid msg \<mapsto> appendMessage msg (live_or_new s (msg_channelid msg) cn)) \<and>
    GetWrongthinkMessages E db ctx req (s1, []) =
      (Inr status_ok, (s2, ms @ [stored_message msg n (next_id tb 0) now]))"
  using db_contract.send_then_read [OF deployment_contract [OF dep] inv up clk user chan msg tb id _ req] before
  unfolding GetWrongthinkMessages_def by metis

definition hello :: message where
  "hello = empty_message\<lparr>msg_uname := ''mallory'', msg_channelid := 2, msg_userid := 1, msg_text := ''hello''\<rparr>"

definition get_all :: get_messages_request where
  "get_all = \<lparr>gm_channelid = 2, gm_limit = 0, gm_afterid = 0, gm_afterdate = 0\<rparr>"

lemma chan_server_facts:
  "directory (tabs chan_world) ''ann'' = Some (1, ''pw'', True)"
  "channel_name (tabs chan_world) 2 = Some ''c2''"
  "tabs chan_world Messages = Some \<lparr>cols = pg_schema Messages, rows = [], seqno = 0\<rparr>"
  "ticks chan_world = 16"
  by code_simp+

theorem message_roundtrip_witness:
  "\<exists>s1 s2 now. SendWrongthinkMessageWeb pg0 (pg_db pg0) hello chan_server = (Inr status_ok, s1) \<and>
    GetWrongthinkMessages pg0 (pg_db pg0) [] get_all (s1, []) =
      (Inr status_ok, (s2, [stored_message hello ''ann'' 1 now]))"
proof -
  have "GetWrongthinkMessages pg0 (pg_db pg0) [] get_all (chan_server, []) = (Inr status_ok,
      (fst (snd (GetWrongthinkMessages pg0 (pg_db pg0) [] get_all (chan_server, []))), []))"
    by (rule prod_eqI, code_simp, rule prod_eqI, simp, code_simp)
  then show ?thesis
    using message_roundtrip [OF pg0_deployment chan_server_inv, of "''ann''" hello "''pw''" True "''c2''"
        "\<lparr>cols = pg_schema Messages, rows = [], seqno = 0\<rparr>" "[]" get_all _ "[]"]
    by (fastforce simp: chan_server_def chan_server_facts hello_def get_all_def message_ok_def empty_message_def
        int32_def next_id_def plain_def)
qed

end
