(* ===== verification/Streams.thy ===== *)
theory Streams
  imports Messaging
begin

text \<open>
  Streams of messages: what \<^verbatim>\<open>SendWrongthinkMessage\<close> has stored and made live when the
  client's stream ends, and what the two ways of sending do with a message that cannot be stored.
\<close>

section \<open>What was said in a channel\<close>

definition said :: "db \<Rightarrow> int \<Rightarrow> string list" where
  "said d ch = map (\<lambda>r. text_of (r ! 6)) (history d ch)"

definition live_log :: "server \<Rightarrow> int \<Rightarrow> message list" where
  "live_log s ch = (case channelMap s ch of None \<Rightarrow> [] | Some c \<Rightarrow> getMessages c)"

text \<open>A message that the database accepts: its author and its channel exist.\<close>

definition storable :: "db \<Rightarrow> message \<Rightarrow> bool" where
  "storable d m \<longleftrightarrow> message_ok m \<and> entry_at d Users (msg_userid m) \<noteq> None \<and>
     entry_at d Channels (msg_channelid m) \<noteq> None"

definition room_for :: "env \<Rightarrow> server \<Rightarrow> nat \<Rightarrow> bool" where
  "room_for E s n \<longleftrightarrow> (\<exists>tb. tabs (world_of s) Messages = Some tb \<and> seqno tb + int n \<le> 2147483647) \<and>
     list_all (\<lambda>k. int32 (clock E (ticks (world_of s) + k))) [0..<2 * n]"

lemma room_for_iff:
  "room_for E s n \<longleftrightarrow> (\<exists>tb. tabs (world_of s) Messages = Some tb \<and> seqno tb + int n \<le> 2147483647) \<and>
     (\<forall>k < 2 * n. int32 (clock E (ticks (world_of s) + k)))"
  by (simp add: room_for_def list_all_iff Ball_def del: upt_Suc)

lemma room_for_clock:
  assumes "room_for E s (Suc n)"
  shows "int32 (clock E (ticks (world_of s)))" and "int32 (clock E (Suc (ticks (world_of s))))"
proof -
  have "\<forall>k < 2 * Suc n. int32 (clock E (ticks (world_of s) + k))" using assms unfolding room_for_iff by blast
  from this [rule_format, of 0] this [rule_format, of 1] show
    "int32 (clock E (ticks (world_of s)))" "int32 (clock E (Suc (ticks (world_of s))))" by simp_all
qed

lemma live_log_live_or_new:
  "getMessages (live_or_new s i n) = live_log s i"
  by (auto simp: live_log_def live_or_new_def getMessages_def SynchronizedChannel_named_def split: option.splits)

lemma live_log_append:
  "live_log (s\<lparr>world_of := w, channelMap := (channelMap s)(i \<mapsto> appendMessage m (live_or_new s i n))\<rparr>) ch =
   live_log s ch @ (if i = ch then [m] else [])"
  using live_log_live_or_new [of s i n]
  by (auto simp: live_log_def appendMessage_def getMessages_def)

lemma storable_frame:
  "(\<And>t. t \<noteq> Messages \<Longrightarrow> d' t = d t) \<Longrightarrow> storable d' m = storable d m"
  by (simp add: storable_def entry_at_def stored_def)

lemma room_for_Suc:
  assumes "room_for E s (Suc n)" and "tabs (world_of s) Messages = Some tb"
    and "tabs (world_of s') Messages = Some tb'" and "seqno tb' = seqno tb + 1"
    and "ticks (world_of s) \<le> ticks (world_of s')" and "ticks (world_of s') \<le> ticks (world_of s) + 2"
  shows "room_for E s' n"
proof -
  have "int32 (clock E (ticks (world_of s') + k))" if "k < 2 * n" for k
  proof -
    define j where "j = (ticks (world_of s') - ticks (world_of s)) + k"
    have "j < 2 * Suc n" "ticks (world_of s) + j = ticks (world_of s') + k"
      using assms(5,6) that by (auto simp: j_def)
    then show ?thesis using assms(1) unfolding room_for_iff by metis
  qed
  then show ?thesis using assms(1-4) by (auto simp: room_for_iff)
qed

lemma room_for_tick:
  assumes "room_for E s (Suc n)" and "tabs (world_of s') = tabs (world_of s)"
    and "ticks (world_of s') = Suc (ticks (world_of s))"
  shows "room_for E s' n"
proof -
  have "int32 (clock E (ticks (world_of s') + k))" if "k < 2 * n" for k
  proof -
    have "Suc k < 2 * Suc n" using that by simp
    then have "int32 (clock E (ticks (world_of s) + Suc k))" using assms(1) unfolding room_for_iff by blast
    then show ?thesis by (simp add: assms(3))
  qed
  then show ?thesis using assms(1,2) by (auto simp: room_for_iff)
qed

context db_contract
begin

text \<open>One round of the loop with a storable message.\<close>

lemma accept_step:
  assumes inv: "inv_server s" and msg: "storable (tabs (world_of s)) m" and room: "room_for E s (Suc n)"
  obtains s' where
    "\<And>X k. bind_io (checkForChannel E db (msg_channelid m)) (\<lambda>ok. if \<not> ok then X
       else bind_io (append_live (msg_channelid m) m) (\<lambda>_. bind_io (on_db (insert_message E m)) (\<lambda>_. k))) s = k s'"
    and "inv_server s'" and "room_for E s' n" and "\<And>t. t \<noteq> Messages \<Longrightarrow> tabs (world_of s') t = tabs (world_of s) t"
    and "\<And>ch. live_log s' ch = live_log s ch @ (if msg_channelid m = ch then [m] else [])"
    and "\<And>ch. said (tabs (world_of s')) ch =
      said (tabs (world_of s)) ch @ (if msg_channelid m = ch then [msg_text m] else [])"
proof -
  let ?i = "msg_channelid m" and ?d = "tabs (world_of s)"
  obtain tb where tb: "?d Messages = Some tb" "seqno tb + int (Suc n) \<le> 2147483647"
    using room by (auto simp: room_for_iff)
  have snd: "table_sound tb" and cols: "cols tb = sch Messages" by (rule server_inv_table [OF inv tb(1)])+
  have id: "int32 (next_id tb 0)"
    using next_id_bounds(1,2) [OF snd, of 0] first_key(2,3) [of Messages] cols tb(2) by (simp add: int32_def)
  obtain cn where cn: "channel_name ?d ?i = Some cn" using msg by (auto simp: storable_def channel_name_def)
  have live: "\<exists>k. (k = ticks (world_of s) \<or> k = Suc (ticks (world_of s))) \<and>
      checkForChannel E db ?i s = (Inr True, s\<lparr>world_of := (world_of s)\<lparr>ticks := k\<rparr>,
        channelMap := (channelMap s)(?i \<mapsto> live_or_new s ?i cn)\<rparr>)"
  proof (cases "channelMap s ?i")
    case None
    then show ?thesis
      using checkForChannel_run(1) [OF inv None cn]
      by (intro exI [of _ "Suc (ticks (world_of s))"]) (simp add: live_or_new_def)
  next
    case (Some c)
    moreover have "s\<lparr>world_of := (world_of s)\<lparr>ticks := ticks (world_of s)\<rparr>, channelMap := (channelMap s)(?i \<mapsto> c)\<rparr> = s"
      using Some by (cases s) (simp add: fun_upd_idem)
    ultimately show ?thesis using checkForChannel_live [OF Some] by (auto simp: live_or_new_def)
  qed
  then obtain k where k: "k = ticks (world_of s) \<or> k = Suc (ticks (world_of s))"
    and check: "checkForChannel E db ?i s = (Inr True, s\<lparr>world_of := (world_of s)\<lparr>ticks := k\<rparr>,
        channelMap := (channelMap s)(?i \<mapsto> live_or_new s ?i cn)\<rparr>)" by blast
  have now: "int32 (clock E k)"
    using room_for_clock [OF room] k by auto
  let ?r = "[IntV (next_id tb 0), IntV (msg_userid m), IntV ?i, IntV (msg_threadid m),
        IntV (msg_threadchild m), IntV 0, TextV (msg_text m), IntV (clock E k)]"
  let ?w = "(world_of s)\<lparr>ticks := k\<rparr>"
  let ?w' = "?w\<lparr>tabs := ?d(Messages \<mapsto> with_row tb ?r), ticks := Suc k\<rparr>"
  let ?s' = "s\<lparr>world_of := ?w', channelMap := (channelMap s)(?i \<mapsto> appendMessage m (live_or_new s ?i cn))\<rparr>"
  have ins: "insert_message E m ?w = (Inr (), ?w')"
    using insert_message_run [of ?w tb m] inv tb(1) id msg now by (auto simp: refs_present_def storable_def)
  obtain x where "entry_at ?d Users (msg_userid m) = Some x" using msg by (auto simp: storable_def)
  then have y: "IntV (msg_userid m) # x \<in> set (stored ?d Users)" by (simp add: entry_at_Some [OF inv])
  show thesis
  proof (rule that [of ?s'])
    show "bind_io (checkForChannel E db ?i) (\<lambda>ok. if \<not> ok then X
       else bind_io (append_live ?i m) (\<lambda>_. bind_io (on_db (insert_message E m)) (\<lambda>_. k))) s = k ?s'" for X k
      using check ins
      by (simp add: bind_io_def append_live_def on_db_def) (rule arg_cong [where f = k], simp)
    show "inv_server ?s'" using keepsD [OF keeps_insert_message, of ?w m] inv ins by simp
    show "room_for E ?s' n" by (rule room_for_Suc [OF room tb(1)]) (use k in auto)
    show "said (tabs (world_of ?s')) ch = said ?d ch @ (if ?i = ch then [msg_text m] else [])" for ch
      using history_with_row [OF inv tb(1), of ?r "msg_userid m" ?i _ ch, OF _ _ _ _ y] by (simp add: said_def)
  qed (simp_all add: live_log_append)
qed

lemma send_loop_stores:
  assumes "inv_server s" and "drop (pos rd) (objList rd) = ms" and "pos rd \<le> length (objList rd)"
    and "list_all (storable (tabs (world_of s))) ms" and "room_for E s (length ms)"
  shows "\<exists>s'. send_loop E db rd s = (Inr status_ok, s') \<and> (\<forall>ch.
    live_log s' ch = live_log s ch @ filter (\<lambda>m. msg_channelid m = ch) ms \<and>
    said (tabs (world_of s')) ch =
      said (tabs (world_of s)) ch @ map msg_text (filter (\<lambda>m. msg_channelid m = ch) ms))"
  using assms
proof (induction ms arbitrary: rd s)
  case Nil
  then have "Read rd = Inr (None, rd)" by (simp add: Read_def)
  then show ?case by (subst send_loop.simps) simp
next
  case (Cons m ms)
  then have p: "pos rd < length (objList rd)" by (metis drop_all leI list.distinct(1))
  then have m: "objList rd ! pos rd = m" and d: "drop (Suc (pos rd)) (objList rd) = ms"
    using Cons.prems(2) by (simp_all add: Cons_nth_drop_Suc [symmetric])
  let ?rd = "rd\<lparr>pos := Suc (pos rd)\<rparr>"
  have read: "Read rd = Inr (Some m, ?rd)" using p m by (simp add: Read_def)
  have "storable (tabs (world_of s)) m" "room_for E s (Suc (length ms))" using Cons.prems(4,5) by simp_all
  from accept_step [OF Cons.prems(1) this]
  obtain s1 where go: "\<And>(X :: (server, status) io) k. bind_io (checkForChannel E db (msg_channelid m)) (\<lambda>ok. if \<not> ok then X
       else bind_io (append_live (msg_channelid m) m) (\<lambda>_. bind_io (on_db (insert_message E m)) (\<lambda>_. k))) s = k s1"
    and inv1: "inv_server s1" and room1: "room_for E s1 (length ms)"
    and frame: "\<And>t. t \<noteq> Messages \<Longrightarrow> tabs (world_of s1) t = tabs (world_of s) t"
    and live: "\<And>ch. live_log s1 ch = live_log s ch @ (if msg_channelid m = ch then [m] else [])"
    and said: "\<And>ch. said (tabs (world_of s1)) ch =
      said (tabs (world_of s)) ch @ (if msg_channelid m = ch then [msg_text m] else [])" by blast
  have run: "send_loop E db rd s = send_loop E db ?rd s1"
    by (subst send_loop.simps) (simp only: read sum.case prod.case option.case, rule go)
  have "list_all (storable (tabs (world_of s1))) ms"
    using Cons.prems(4) storable_frame [OF frame] by (simp add: list_all_iff)
  then show ?case
    using Cons.IH [of s1 ?rd] inv1 d p room1 unfolding run by (fastforce simp: live said)
qed

lemma prepare_message_ok:
  assumes "inv_world w"
  shows "prepare_message E w = (Inr (), w\<lparr>ticks := Suc (ticks w)\<rparr>)"
proof -
  obtain tb where "tabs w Messages = Some tb" "cols tb = sch Messages"
    by (rule stored_table [OF assms])
  then show ?thesis
    using backend_schema by (auto simp: prepare_message_def query_def find_column_def plain_def)
qed

end

section \<open>Properties\<close>

text \<open>C9 (streams). When all messages of a client's stream have registered authors and stored
  channels, \<^verbatim>\<open>SendWrongthinkMessage\<close> answers OK, and for every channel both the live
  channel and the stored history have grown by exactly the messages for it, in the order of the
  stream.\<close>

theorem stream_stores_in_order:
  assumes dep: "deployment E sch db" and inv: "server_inv E sch (tabs (world_of s))"
    and up: "session_up E (sessions (world_of s))"
    and msgs: "list_all (storable (tabs (world_of s))) msgs" and room: "room_for E s (Suc (length msgs))"
  shows "\<exists>s'. SendWrongthinkMessage E db ctx msgs s = (Inr status_ok, s') \<and> (\<forall>ch.
    live_log s' ch = live_log s ch @ filter (\<lambda>m. msg_channelid m = ch) msgs \<and>
    said (tabs (world_of s')) ch =
      said (tabs (world_of s)) ch @ map msg_text (filter (\<lambda>m. msg_channelid m = ch) msgs))"
proof -
  note c = deployment_contract [OF dep]
  let ?w = "(world_of s)\<lparr>sessions := Suc (sessions (world_of s))\<rparr>"
  let ?s = "s\<lparr>world_of := ?w\<lparr>ticks := Suc (ticks (world_of s))\<rparr>\<rparr>"
  have "on_db (getSociSession E) s = (Inr (), s\<lparr>world_of := ?w\<rparr>)"
    using up by (simp add: on_db_def session_ok)
  moreover have "on_db (prepare_message E) (s\<lparr>world_of := ?w\<rparr>) = (Inr (), ?s)"
    using db_contract.prepare_message_ok [OF c, of ?w] inv by (simp add: on_db_def)
  moreover have "room_for E ?s (length msgs)"
    by (rule room_for_tick [OF room]) simp_all
  then obtain s' where "send_loop E db (open_reader msgs) ?s = (Inr status_ok, s')" and "\<forall>ch.
      live_log s' ch = live_log ?s ch @ filter (\<lambda>m. msg_channelid m = ch) msgs \<and>
      said (tabs (world_of s')) ch =
        said (tabs (world_of s)) ch @ map msg_text (filter (\<lambda>m. msg_channelid m = ch) msgs)"
    using db_contract.send_loop_stores [OF c, of ?s "open_reader msgs" msgs] inv msgs by (auto simp: open_reader_def)
  ultimately show ?thesis
    by (simp add: SendWrongthinkMessage_def SendWrongthinkMessageImpl_def try_catch_def bind_io_def live_log_def)
qed

definition hello1 :: message where
  "hello1 = hello\<lparr>msg_channelid := 1, msg_text := ''hello all''\<rparr>"

theorem stream_stores_in_order_witness:
  "\<exists>s'. SendWrongthinkMessage pg0 (pg_db pg0) [] [hello, hello1, hello] chan_server = (Inr status_ok, s') \<and>
    live_log s' 2 = [hello, hello] \<and> said (tabs (world_of s')) 2 = [''hello'', ''hello''] \<and>
    said (tabs (world_of s')) 1 = [''hello all'']"
proof -
  have "entry_at (tabs chan_world) Users 1 = Some [TextV ''ann'', TextV ''pw'', IntV 1]"
    "entry_at (tabs chan_world) Channels 1 = Some [TextV ''c1'', IntV 1, IntV 1, IntV 1]"
    "entry_at (tabs chan_world) Channels 2 = Some [TextV ''c2'', IntV 1, IntV 1, IntV 0]"
    by code_simp+
  then have "list_all (storable (tabs (world_of chan_server))) [hello, hello1, hello]"
    by (simp add: chan_server_def hello1_def hello_def empty_message_def storable_def message_ok_def int32_def)
  moreover have "room_for pg0 chan_server (Suc (length [hello, hello1, hello]))"
    by (simp add: room_for_iff chan_server_def chan_server_facts less_Suc_eq numeral_eq_Suc) (auto simp: int32_def)
  moreover have "live_log chan_server 2 = []" "said (tabs (world_of chan_server)) 1 = []"
      "said (tabs (world_of chan_server)) 2 = []"
    by (simp_all add: live_log_def chan_server_def said_def history_def message_join_def stored_def chan_server_facts)
  ultimately show ?thesis
    using stream_stores_in_order [OF pg0_deployment chan_server_inv, of "[hello, hello1, hello]" "[]"]
    by (fastforce simp: chan_server_def hello1_def hello_def)
qed

text \<open>C33 (unknown authors). The live channel gets a message before the database has accepted it: a
  message under a user id that nobody has is delivered to everyone who listens, and is then missing
  from the history. An engine that checks foreign keys makes the handler answer INTERNAL; one that
  does not stores the row, which no query of the history returns, and the handler answers OK.\<close>

theorem unknown_author_is_live:
  assumes dep: "deployment E sch db" and inv: "server_inv E sch (tabs (world_of s))"
    and up: "session_up E (sessions (world_of s))" and room: "room_for E s 1" and ok: "message_ok msg"
    and chan: "channel_name (tabs (world_of s)) (msg_channelid msg) = Some cn"
    and author: "entry_at (tabs (world_of s)) Users (msg_userid msg) = None"
  shows "\<exists>s1. SendWrongthinkMessageWeb E db msg s =
      (Inr (if fk_enforced E then Status INTERNAL [] else status_ok), s1) \<and>
    live_log s1 (msg_channelid msg) = live_log s (msg_channelid msg) @ [msg] \<and>
    (\<forall>ch. history (tabs (world_of s1)) ch = history (tabs (world_of s)) ch)"
proof -
  note c = deployment_contract [OF dep] and b = deployment_backend [OF dep]
  obtain tb where tb: "tabs (world_of s) Messages = Some tb" "seqno tb + 1 \<le> 2147483647"
    and clk: "int32 (clock E (ticks (world_of s)))" "int32 (clock E (Suc (ticks (world_of s))))"
    using room room_for_clock [of E s 0] by (auto simp: room_for_iff)
  have "table_sound tb" "cols tb = sch Messages" by (rule server_inv_table [OF inv tb(1)])+
  then have id: "int32 (next_id tb 0)"
    using next_id_bounds(1,2) [of tb 0] backend.first_key(2,3) [OF b, of Messages] tb(2) by (simp add: int32_def)
  obtain k where k: "k = ticks (world_of s) \<or> k = Suc (ticks (world_of s))"
    and send: "\<And>r w'. insert_message E msg ((world_of s)\<lparr>sessions := Suc (sessions (world_of s)), ticks := k\<rparr>) = (r, w') \<Longrightarrow>
      r \<noteq> Inl Undefined \<Longrightarrow> SendWrongthinkMessageWeb E db msg s =
      (Inr (case r of Inr _ \<Rightarrow> status_ok | Inl e \<Rightarrow> Status INTERNAL []),
       s\<lparr>world_of := w', channelMap := (channelMap s)(msg_channelid msg \<mapsto>
         appendMessage msg (live_or_new s (msg_channelid msg) cn))\<rparr>)"
    by (rule db_contract.SendWeb_known [OF c inv up chan]) blast
  let ?w = "(world_of s)\<lparr>sessions := Suc (sessions (world_of s)), ticks := k\<rparr>"
  obtain r w' where ins: "insert_message E msg ?w = (r, w')" by (rule prod.exhaust)
  have "r = (if fk_enforced E then Inl ForeignKeyViolation else Inr ()) \<and>
      (\<forall>ch. history (tabs w') ch = history (tabs (world_of s)) ch)"
    using db_contract.insert_message_run [OF c, of ?w tb msg] inv tb(1) id ok clk k author ins
    by (auto simp: refs_present_def backend.history_bump [OF b] backend.history_orphan [OF b] split: if_splits)
  with send [OF ins] show ?thesis by (auto simp: live_log_append)
qed

theorem unknown_author_is_live_witness:
  "\<exists>s1. SendWrongthinkMessageWeb pg0 (pg_db pg0) (hello\<lparr>msg_userid := 7\<rparr>) chan_server =
      (Inr (Status INTERNAL []), s1) \<and> live_log s1 2 = [hello\<lparr>msg_userid := 7\<rparr>]"
proof -
  have "room_for pg0 chan_server 1"
    by (simp add: room_for_iff chan_server_def chan_server_facts less_Suc_eq numeral_eq_Suc) (auto simp: int32_def)
  moreover have "entry_at (tabs chan_world) Users 7 = None" by code_simp
  moreover have "live_log chan_server 2 = []" by (simp add: live_log_def chan_server_def)
  ultimately show ?thesis
    using unknown_author_is_live [OF pg0_deployment chan_server_inv, of "hello\<lparr>msg_userid := 7\<rparr>" "''c2''"]
    by (fastforce simp: chan_server_def chan_server_facts hello_def empty_message_def message_ok_def int32_def)
qed

text \<open>Unknown channels. A message for a channel that is neither live nor stored is refused
  with INVALID_ARGUMENT, and no live channel and no stored data change.\<close>

theorem unknown_channel_refused:
  assumes dep: "deployment E sch db" and inv: "server_inv E sch (tabs (world_of s))"
    and up: "session_up E (sessions (world_of s))" and null: "no_row_null E"
    and new: "channelMap s (msg_channelid msg) = None"
    and chan: "channel_name (tabs (world_of s)) (msg_channelid msg) = None"
  shows "\<exists>s1. SendWrongthinkMessageWeb E db msg s = (Inr (Status INVALID_ARGUMENT []), s1) \<and> same_data s1 s"
proof -
  let ?s = "s\<lparr>world_of := (world_of s)\<lparr>sessions := Suc (sessions (world_of s))\<rparr>\<rparr>"
  have "on_db (getSociSession E) s = (Inr (), ?s)" using up by (simp add: on_db_def session_ok)
  moreover have "checkForChannel E db (msg_channelid msg) ?s =
      (Inr False, ?s\<lparr>world_of := (world_of ?s)\<lparr>ticks := Suc (ticks (world_of s))\<rparr>\<rparr>)"
    using db_contract.checkForChannel_run(2) [OF deployment_contract [OF dep], of ?s "msg_channelid msg"]
      inv new chan null by simp
  ultimately show ?thesis
    by (simp add: SendWrongthinkMessageWeb_def try_catch_def bind_io_def same_data_def)
qed

theorem unknown_channel_refused_witness:
  "\<exists>s1. SendWrongthinkMessageWeb pg0 (pg_db pg0) (hello\<lparr>msg_channelid := 9\<rparr>) chan_server =
      (Inr (Status INVALID_ARGUMENT []), s1) \<and> same_data s1 chan_server"
proof -
  have "channel_name (tabs chan_world) 9 = None" by code_simp
  then show ?thesis
    by (intro unknown_channel_refused [OF pg0_deployment chan_server_inv]) (simp_all add: chan_server_def)
qed

end
