(* ===== verification/Growth.thy ===== *)
theory Growth
  imports Contract "HOL-Library.Sublist"
begin

text \<open>
  What the program never takes back: users, communities, channels and messages are only ever added.
  The database methods are shown to append to these tables, and what follows for the directory of
  users and for the names of channels.
\<close>

section \<open>Growing tables\<close>

definition permanent :: "tabname set" where
  "permanent = {Users, Communities, Channels, Messages}"

definition grows :: "db \<Rightarrow> db \<Rightarrow> bool" where
  "grows d d' \<longleftrightarrow> (\<forall>t \<in> permanent. prefix (stored d t) (stored d' t))"

lemma grows_refl [simp]: "grows d d"
  by (simp add: grows_def)

lemma grows_trans: "grows d d' \<Longrightarrow> grows d' d'' \<Longrightarrow> grows d d''"
  unfolding grows_def by (meson prefix_order.trans)

lemma grows_at: "grows d d' \<Longrightarrow> t \<in> permanent \<Longrightarrow> prefix (stored d t) (stored d' t)"
  by (simp add: grows_def)

lemma find_prefix: "prefix xs ys \<Longrightarrow> List.find P xs = Some x \<Longrightarrow> List.find P ys = Some x"
  by (auto simp: prefix_def find_append)

lemma grows_directory:
  assumes "grows d d'" and "directory d u = Some x"
  shows "directory d' u = Some x"
  using assms(2) find_prefix [OF grows_at [OF assms(1), of Users]]
  by (auto simp: directory_def permanent_def split: option.splits)

lemma grows_entry:
  assumes "grows d d'" and "t \<in> permanent" and "entry_at d t i = Some x"
  shows "entry_at d' t i = Some x"
  using assms(3) find_prefix [OF grows_at [OF assms(1,2)]] by (auto simp: entry_at_def)

lemma grows_channel_name: "grows d d' \<Longrightarrow> channel_name d i = Some n \<Longrightarrow> channel_name d' i = Some n"
  using grows_entry [of d d' Channels i] by (auto simp: channel_name_def permanent_def)

section \<open>Statements and methods\<close>

lemma insert_into_grows: "grows d (snd (insert_into E t as now d))"
  by (auto simp: insert_into_def grows_def stored_def bump_def Let_def
      split: option.splits sum.splits)

lemma update_set_grows: "t \<notin> permanent \<Longrightarrow> grows d (snd (update_set E t n e cs now d))"
  by (auto simp: update_set_def grows_def stored_def Let_def split: option.splits sum.splits)

lemma delete_from_grows: "t \<notin> permanent \<Longrightarrow> grows d (snd (delete_from E t cs now d))"
  by (auto simp: delete_from_def grows_def stored_def Let_def split: option.splits sum.splits)

lemma keeps_grows_exec:
  "(\<And>now d. grows d (snd (st now d))) \<Longrightarrow> keeps (\<lambda>w. grows D (tabs w)) (exec E st)"
  by (auto simp: keeps_def exec_def split_beta Let_def intro: grows_trans)

lemma keeps_grows_statements:
  "keeps (\<lambda>w. grows D (tabs w)) (exec E (insert_into E t as))"
  "keeps (\<lambda>w. grows D (tabs w)) (exec E (update_set E BannedUsers n e cs))"
  "keeps (\<lambda>w. grows D (tabs w)) (exec E (delete_from E BannedUsers cs))"
  "keeps (\<lambda>w. grows D (tabs w)) (exec E (delete_from E BannedIps cs))"
  by (auto intro!: keeps_grows_exec insert_into_grows update_set_grows delete_from_grows simp: permanent_def)

lemma keeps_grows_ip: "keeps (\<lambda>w. grows D (tabs w)) (pg_isIPBanned E ip)"
  unfolding pg_isIPBanned_def by (intro keeps_intros keeps_grows_statements)

lemma keeps_grows_methods:
  assumes dep: "deployment E sch db"
  shows "keeps (\<lambda>w. grows D (tabs w)) (isUserValid db u k)"
    and "keeps (\<lambda>w. grows D (tabs w)) (isUserAdmin db u)"
    and "keeps (\<lambda>w. grows D (tabs w)) (isUserModerator db u c)"
    and "keeps (\<lambda>w. grows D (tabs w)) (isUserBanned db u ip)"
    and "keeps (\<lambda>w. grows D (tabs w)) (isIPBanned db ip)"
    and "keeps (\<lambda>w. grows D (tabs w)) (banUser db u n)"
    and "keeps (\<lambda>w. grows D (tabs w)) (createUser db u k a)"
    and "keeps (\<lambda>w. grows D (tabs w)) (createChannel db u c i a)"
    and "keeps (\<lambda>w. grows D (tabs w)) (createCommunity db u i a)"
    and "keeps (\<lambda>w. grows D (tabs w)) (getCommunityRowset db)"
    and "keeps (\<lambda>w. grows D (tabs w)) (getCommunityChannelsRowset db c)"
    and "keeps (\<lambda>w. grows D (tabs w)) (getChannelMessages db c)"
    and "keeps (\<lambda>w. grows D (tabs w)) (getChannelRow db c)"
  unfolding deployment_methods [OF dep] pg_isUserValid_def pg_isUserAdmin_def pg_isUserModerator_def
    pg_isUserBanned_def pg_banUser_def pg_createUser_def pg_createChannel_def pg_createCommunity_def
    pg_getCommunityRowset_def pg_getCommunityChannelsRowset_def pg_getChannelMessages_def pg_getChannelRow_def
  by (intro keeps_intros keeps_grows_statements keeps_grows_ip)+

lemma keeps_grows_insert_message: "keeps (\<lambda>w. grows D (tabs w)) (insert_message E msg)"
  unfolding insert_message_def by (rule keeps_grows_statements)

end
