(* ===== verification/Serving.thy ===== *)
theory Serving
  imports Streams Growth
begin

text \<open>
  The service as a whole: requests as data, the dispatch to the registered methods, and runs of the
  server over sequences of requests. The invariant of the service links the live channels with the
  stored ones.
\<close>

section \<open>Dispatch\<close>

text \<open>One constructor per method that \<^verbatim>\<open>WrongthinkServiceImpl\<close> overrides; a
  \<^verbatim>\<open>GenerateUser\<close> request comes with the entropy that the two UUIDs consume.\<close>

datatype rpc =
    DeleteMessage_rpc
  | BanUser_rpc ban_request
  | GenerateUser_rpc "exn + byte list" "exn + byte list"
  | GetWrongthinkChannels_rpc int
  | GetWrongthinkCommunities_rpc
  | CreateWrongthinkChannel_rpc create_channel_request
  | CreateWrongthinkCommunity_rpc create_community_request
  | SendWrongthinkMessageWeb_rpc message
  | SendWrongthinkMessage_rpc "message list"
  | ListenWrongthinkMessages_rpc int
  | GetWrongthinkMessages_rpc get_messages_request
  | CreateUser_rpc create_user_request

datatype reply =
    Generic_reply status string
  | User_reply status user_response
  | Channel_reply status channel
  | Community_reply status community
  | Channels_reply status "channel list"
  | Communities_reply status "community list"
  | Messages_reply status "message list"
  | Meta_reply status
  | Listen_reply listen_outcome

definition empty_user :: user_response where
  "empty_user = \<lparr>u_userid = 0, u_uname = [], u_token = [], u_admin = 0\<rparr>"

definition answer :: "('s, 'a) io \<Rightarrow> ('a \<Rightarrow> 'b) \<Rightarrow> ('s, 'b) io" where
  "answer m f = bind_io m (\<lambda>a. ret (f a))"

text \<open>A method with a stream to the client starts with an empty one.\<close>

definition streamed :: "(server \<times> 'o list, status) io \<Rightarrow> (server, status \<times> 'o list) io" where
  "streamed m s = (case m (s, []) of (Inl e, (s', out)) \<Rightarrow> (Inl e, s')
     | (Inr st, (s', out)) \<Rightarrow> (Inr (st, out), s'))"

definition serve :: "env \<Rightarrow> db_interface \<Rightarrow> metadata \<Rightarrow> rpc \<Rightarrow> (server, reply) io option" where
  "serve E db ctx r = (case r of
       DeleteMessage_rpc \<Rightarrow> Some (answer (DeleteMessage []) (\<lambda>(st, x). Generic_reply st x))
     | BanUser_rpc q \<Rightarrow> Some (answer (BanUser db ctx q []) (\<lambda>(st, x). Generic_reply st x))
     | GenerateUser_rpc e1 e2 \<Rightarrow>
         map_option (\<lambda>m. answer m (\<lambda>(st, x). User_reply st x)) (GenerateUser E db e1 e2 empty_user)
     | GetWrongthinkChannels_rpc i \<Rightarrow>
         Some (answer (streamed (GetWrongthinkChannels E db ctx i)) (\<lambda>(st, x). Channels_reply st x))
     | GetWrongthinkCommunities_rpc \<Rightarrow>
         Some (answer (streamed (GetWrongthinkCommunities E db ctx)) (\<lambda>(st, x). Communities_reply st x))
     | CreateWrongthinkChannel_rpc q \<Rightarrow>
         Some (answer (CreateWrongthinkChannel db q empty_channel) (\<lambda>(st, x). Channel_reply st x))
     | CreateWrongthinkCommunity_rpc q \<Rightarrow>
         Some (answer (CreateWrongthinkCommunity db q empty_community) (\<lambda>(st, x). Community_reply st x))
     | SendWrongthinkMessageWeb_rpc m \<Rightarrow> Some (answer (SendWrongthinkMessageWeb E db m) Meta_reply)
     | SendWrongthinkMessage_rpc ms \<Rightarrow> Some (answer (SendWrongthinkMessage E db ctx ms) Meta_reply)
     | ListenWrongthinkMessages_rpc i \<Rightarrow> Some (answer (ListenWrongthinkMessages E db ctx i) Listen_reply)
     | GetWrongthinkMessages_rpc q \<Rightarrow>
         Some (answer (streamed (GetWrongthinkMessages E db ctx q)) (\<lambda>(st, x). Messages_reply st x))
     | CreateUser_rpc q \<Rightarrow> Some (answer (CreateUser E db q empty_user) (\<lambda>(st, x). User_reply st x)))"

text \<open>
  A run of the server over requests that come one after the other: the states after each request,
  \<open>None\<close> if a request never returns. After undefined behaviour no further request is
  considered.
\<close>

fun serve_all :: "env \<Rightarrow> db_interface \<Rightarrow> (metadata \<times> rpc) list \<Rightarrow> server \<Rightarrow> server option" where
  "serve_all E db [] s = Some s"
| "serve_all E db ((ctx, r) # rs) s = (case serve E db ctx r of None \<Rightarrow> None
     | Some m \<Rightarrow> (case m s of (res, s') \<Rightarrow>
         if res = Inl Undefined then Some s' else serve_all E db rs s'))"

text \<open>The entropy source either fails or yields the sixteen bytes that a UUID takes.\<close>

definition entropy_ok :: "exn + byte list \<Rightarrow> bool" where
  "entropy_ok e = (case e of Inl x \<Rightarrow> True | Inr bs \<Rightarrow> length bs = 16)"

fun rpc_ok :: "rpc \<Rightarrow> bool" where
  "rpc_ok (GenerateUser_rpc e1 e2) = (entropy_ok e1 \<and> entropy_ok e2)"
| "rpc_ok r = True"

section \<open>The invariant of the service\<close>

text \<open>Every live channel is a stored channel under its stored name; it holds messages for this
  channel only, and its last message is the newest of them.\<close>

definition channel_ok :: "db \<Rightarrow> int \<Rightarrow> sync_channel \<Rightarrow> bool" where
  "channel_ok d i c \<longleftrightarrow> channel_name d i = Some (ch_name (wtChannel c)) \<and> ch_id (wtChannel c) = i \<and>
     list_all (\<lambda>m. msg_channelid m = i) (getMessages c) \<and>
     lastMessage c = (if getMessages c = [] then empty_message else last (getMessages c))"

definition service_inv :: "env \<Rightarrow> (tabname \<Rightarrow> column list) \<Rightarrow> server \<Rightarrow> bool" where
  "service_inv E sch s \<longleftrightarrow> server_inv E sch (tabs (world_of s)) \<and>
     (\<forall>i c. channelMap s i = Some c \<longrightarrow> channel_ok (tabs (world_of s)) i c)"

lemma channel_ok_grows: "grows d d' \<Longrightarrow> channel_ok d i c \<Longrightarrow> channel_ok d' i c"
  by (auto simp: channel_ok_def grows_channel_name)

lemma channel_ok_append: "channel_ok d (msg_channelid m) c \<Longrightarrow> channel_ok d (msg_channelid m) (appendMessage m c)"
  by (simp add: channel_ok_def appendMessage_def getMessages_def lastMessage_def)

lemma channel_ok_new: "channel_name d i = Some n \<Longrightarrow> channel_ok d i (SynchronizedChannel_named i n)"
  by (simp add: channel_ok_def SynchronizedChannel_named_def getMessages_def lastMessage_def)

lemma keeps_service_on_db:
  assumes "keeps (\<lambda>w. server_inv E sch (tabs w)) m" and "\<And>D. keeps (\<lambda>w. grows D (tabs w)) m"
  shows "keeps (service_inv E sch) (on_db m)"
proof (rule keepsI)
  fix s assume s: "service_inv E sch s"
  obtain r w where run: "m (world_of s) = (r, w)" by (rule prod.exhaust)
  have "server_inv E sch (tabs w)" using keepsD [OF assms(1), of "world_of s"] s run by (simp add: service_inv_def)
  moreover have "grows (tabs (world_of s)) (tabs w)"
    using keepsD [OF assms(2), of "tabs (world_of s)" "world_of s"] run by simp
  ultimately show "service_inv E sch (snd (on_db m s))"
    using s run by (auto simp: service_inv_def on_db_def intro: channel_ok_grows)
qed

text \<open>The database methods, as the handlers call them.\<close>

lemma keeps_service_methods:
  assumes dep: "deployment E sch db"
  shows "keeps (service_inv E sch) (on_db (isUserValid db u k))"
    and "keeps (service_inv E sch) (on_db (isUserAdmin db u))"
    and "keeps (service_inv E sch) (on_db (banUser db u n))"
    and "keeps (service_inv E sch) (on_db (createUser db u k a))"
    and "keeps (service_inv E sch) (on_db (createChannel db u c i a))"
    and "keeps (service_inv E sch) (on_db (createCommunity db u i a))"
    and "keeps (service_inv E sch) (on_db (getCommunityRowset db))"
    and "keeps (service_inv E sch) (on_db (getCommunityChannelsRowset db c))"
    and "keeps (service_inv E sch) (on_db (getChannelMessages db c))"
    and "keeps (service_inv E sch) (on_db (getSociSession E))"
    and "keeps (service_inv E sch) (on_db (prepare_message E))"
    and "keeps (service_inv E sch) (on_db (insert_message E msg))"
proof -
  note c = deployment_contract [OF dep]
  note step = keeps_service_on_db db_contract.keeps_methods [OF c] keeps_grows_methods [OF dep]
    keeps_session keeps_prepare db_contract.keeps_insert_message [OF c] keeps_grows_insert_message
  show "keeps (service_inv E sch) (on_db (isUserValid db u k))"
    "keeps (service_inv E sch) (on_db (isUserAdmin db u))"
    "keeps (service_inv E sch) (on_db (banUser db u n))"
    "keeps (service_inv E sch) (on_db (createUser db u k a))"
    "keeps (service_inv E sch) (on_db (createChannel db u c i a))"
    "keeps (service_inv E sch) (on_db (createCommunity db u i a))"
    "keeps (service_inv E sch) (on_db (getCommunityRowset db))"
    "keeps (service_inv E sch) (on_db (getCommunityChannelsRowset db c))"
    "keeps (service_inv E sch) (on_db (getChannelMessages db c))"
    "keeps (service_inv E sch) (on_db (getSociSession E))"
    "keeps (service_inv E sch) (on_db (prepare_message E))"
    "keeps (service_inv E sch) (on_db (insert_message E msg))"
    by (intro step)+
qed

text \<open>\<^verbatim>\<open>checkForChannel\<close> makes stored channels live, nothing else.\<close>

lemma checkForChannel_cases:
  assumes dep: "deployment E sch db" and null: "no_row_null E" and s: "service_inv E sch s"
  obtains s' where "checkForChannel E db i s = (Inr True, s')" and "service_inv E sch s'"
      and "channelMap s' i \<noteq> None"
    | s' where "checkForChannel E db i s = (Inr False, s')" and "service_inv E sch s'"
proof -
  note c = deployment_contract [OF dep]
  have inv: "server_inv E sch (tabs (world_of s))" using s by (simp add: service_inv_def)
  show thesis
  proof (cases "channelMap s i")
    case (Some x)
    then show thesis using that(1) db_contract.checkForChannel_live [OF c Some] s by auto
  next
    case None
    note run = db_contract.checkForChannel_run [OF c inv None]
    show thesis
    proof (cases "channel_name (tabs (world_of s)) i")
      case (Some n)
      show thesis
        by (rule that(1) [OF run(1) [OF Some]])
           (use s in \<open>auto simp: service_inv_def channel_ok_new [OF Some]\<close>)
    next
      case no: None
      show thesis
        by (rule that(2) [OF run(2) [OF no null]]) (use s in \<open>simp add: service_inv_def\<close>)
    qed
  qed
qed

lemma keeps_check_append:
  assumes dep: "deployment E sch db" and null: "no_row_null E"
    and X: "keeps (service_inv E sch) X" and k: "keeps (service_inv E sch) k"
  shows "keeps (service_inv E sch) (bind_io (checkForChannel E db (msg_channelid m)) (\<lambda>ok.
    if \<not> ok then X else bind_io (append_live (msg_channelid m) m) (\<lambda>_. k)))"
proof (rule keepsI)
  fix s assume s: "service_inv E sch s"
  let ?i = "msg_channelid m"
  show "service_inv E sch (snd (bind_io (checkForChannel E db ?i) (\<lambda>ok.
    if \<not> ok then X else bind_io (append_live ?i m) (\<lambda>_. k)) s))"
  proof (rule checkForChannel_cases [OF dep null s, of ?i])
    fix s' assume run: "checkForChannel E db ?i s = (Inr True, s')" and s': "service_inv E sch s'"
      and "channelMap s' ?i \<noteq> None"
    then obtain c where c: "channelMap s' ?i = Some c" by auto
    let ?s'' = "s'\<lparr>channelMap := (channelMap s')(?i \<mapsto> appendMessage m c)\<rparr>"
    have "channel_ok (tabs (world_of s')) ?i c" using s' c by (simp add: service_inv_def)
    then have "service_inv E sch ?s''"
      using s' channel_ok_append [of _ m c] by (auto simp: service_inv_def)
    then show ?thesis using run c keepsD [OF k] by (simp add: bind_io_def append_live_def)
  next
    fix s' assume "checkForChannel E db ?i s = (Inr False, s')" and "service_inv E sch s'"
    then show ?thesis using keepsD [OF X] by (simp add: bind_io_def)
  qed
qed

lemma keeps_check:
  assumes dep: "deployment E sch db" and null: "no_row_null E"
  shows "keeps (service_inv E sch) (checkForChannel E db i)"
proof (rule keepsI)
  fix s assume "service_inv E sch s"
  then show "service_inv E sch (snd (checkForChannel E db i s))"
    by (rule checkForChannel_cases [OF dep null, of s i]) simp_all
qed

section \<open>Every request keeps the invariant\<close>

lemma keeps_answer: "keeps P m \<Longrightarrow> keeps P (answer m f)"
  unfolding answer_def by (intro keeps_intros)

lemma keeps_streamed: "keeps (\<lambda>st. P (fst st)) m \<Longrightarrow> keeps P (streamed m)"
  by (auto simp: keeps_def streamed_def split: prod.splits sum.splits) (metis fst_conv snd_conv)+

lemma keeps_service_send_loop:
  assumes dep: "deployment E sch db" and null: "no_row_null E"
  shows "keeps (service_inv E sch) (send_loop E db rd)"
proof (induction "length (objList rd) - pos rd" arbitrary: rd rule: less_induct)
  case less
  have step: "keeps (service_inv E sch) (bind_io (on_db (insert_message E m')) (\<lambda>_. send_loop E db rd'))"
    if "Read rd = Inr (Some m, rd')" for m rd' m'
  proof -
    have "keeps (service_inv E sch) (send_loop E db rd')"
      by (rule less) (use that in \<open>auto simp: Read_def split: if_splits\<close>)
    then show ?thesis by (intro keeps_bind keeps_service_methods [OF dep])
  qed
  show ?case
    by (subst send_loop.simps)
       (auto split: sum.splits option.splits prod.splits
         intro!: keeps_ret keeps_raise keeps_check_append [OF dep null] step)
qed

lemma keeps_service_handlers:
  assumes dep: "deployment E sch db" and null: "no_row_null E"
  shows "keeps (service_inv E sch) (DeleteMessage g)"
    and "keeps (service_inv E sch) (BanUser db meta bq g)"
    and "keeps (service_inv E sch) (CreateUser E db cq u)"
    and "keeps (service_inv E sch) (CreateWrongthinkChannel db ccq c)"
    and "keeps (service_inv E sch) (CreateWrongthinkCommunity db coq com)"
    and "keeps (service_inv E sch) (SendWrongthinkMessageWeb E db msg)"
    and "keeps (service_inv E sch) (SendWrongthinkMessage E db meta msgs)"
    and "keeps (service_inv E sch) (ListenWrongthinkMessages E db meta i)"
  unfolding DeleteMessage_def BanUser_def CreateUser_def CreateWrongthinkChannel_def
    CreateWrongthinkCommunity_def SendWrongthinkMessageWeb_def SendWrongthinkMessage_def
    SendWrongthinkMessageImpl_def ListenWrongthinkMessages_def ListenWrongthinkMessagesImpl_def
  by (intro keeps_check_append [OF dep null] keeps_check [OF dep null] keeps_service_methods [OF dep]
      keeps_service_send_loop [OF dep null] keeps_ret keeps_raise keeps_lift_sum keeps_bind keeps_if
      keeps_try_catch keeps_prod)+

lemma keeps_service_streams:
  assumes dep: "deployment E sch db"
  shows "keeps (\<lambda>st. service_inv E sch (fst st)) (GetWrongthinkCommunities E db meta)"
    and "keeps (\<lambda>st. service_inv E sch (fst st)) (GetWrongthinkChannels E db meta i)"
    and "keeps (\<lambda>st. service_inv E sch (fst st)) (GetWrongthinkMessages E db meta q)"
  unfolding GetWrongthinkCommunities_def GetWrongthinkCommunitiesImpl_def GetWrongthinkChannels_def
    GetWrongthinkChannelsImpl_def GetWrongthinkMessages_def GetWrongthinkMessagesImpl_def
  by (intro keeps_intros keeps_service_methods [OF dep])+

lemma keeps_service_generate:
  assumes dep: "deployment E sch db" and run: "GenerateUser E db e1 e2 u = Some m"
  shows "keeps (service_inv E sch) m"
  using run unfolding GenerateUser_def Let_def
  by (auto split: option.splits sum.splits intro!: keeps_try_catch keeps_raise keeps_ret keeps_bind
      keeps_prod keeps_service_methods [OF dep])

lemma keeps_serve:
  assumes dep: "deployment E sch db" and null: "no_row_null E" and m: "serve E db ctx r = Some m"
  shows "keeps (service_inv E sch) m"
  using m
  by (cases r)
     (auto simp: serve_def intro!: keeps_answer keeps_streamed keeps_service_handlers [OF dep null]
       keeps_service_streams [OF dep] dest: keeps_service_generate [OF dep])

lemma serve_returns:
  assumes "rpc_ok r"
  obtains m where "serve E db ctx r = Some m"
proof -
  have "\<exists>x. fresh_id e = Some x" if "entropy_ok e" for e
    using that fresh_id_random
    by (cases e) (auto simp: entropy_ok_def fresh_id_def random_generator_def)
  then have "\<exists>m. GenerateUser E db e1 e2 u = Some m" if "entropy_ok e1" "entropy_ok e2" for e1 e2 u
    using that by (fastforce simp: GenerateUser_def Let_def split: option.splits sum.splits)
  then have "\<exists>m. serve E db ctx r = Some m"
    using assms by (cases r) (simp_all add: serve_def)
  with that show thesis by blast
qed

section \<open>Every request only adds\<close>

abbreviation grown :: "db \<Rightarrow> server \<Rightarrow> bool" where
  "grown D s \<equiv> grows D (tabs (world_of s))"

lemma keeps_grown_send_loop:
  assumes dep: "deployment E sch db"
  shows "keeps (grown D) (send_loop E db rd)"
proof (induction "length (objList rd) - pos rd" arbitrary: rd rule: less_induct)
  case less
  have "keeps (grown D) (send_loop E db rd')" if "Read rd = Inr (Some m, rd')" for m rd'
    by (rule less) (use that in \<open>auto simp: Read_def split: if_splits\<close>)
  then show ?case
    by (subst send_loop.simps)
       (auto split: sum.splits option.splits prod.splits simp: checkForChannel_def
         intro!: keeps_intros keeps_grows_methods [OF dep] keeps_grows_insert_message)
qed

lemma keeps_grown_handlers:
  assumes dep: "deployment E sch db"
  shows "keeps (grown D) (DeleteMessage g)"
    and "keeps (grown D) (BanUser db meta bq g)"
    and "keeps (grown D) (CreateUser E db cq u)"
    and "keeps (grown D) (CreateWrongthinkChannel db ccq c)"
    and "keeps (grown D) (CreateWrongthinkCommunity db coq com)"
    and "keeps (grown D) (SendWrongthinkMessageWeb E db msg)"
    and "keeps (grown D) (SendWrongthinkMessage E db meta msgs)"
    and "keeps (grown D) (ListenWrongthinkMessages E db meta i)"
    and "keeps (\<lambda>st. grown D (fst st)) (GetWrongthinkCommunities E db meta)"
    and "keeps (\<lambda>st. grown D (fst st)) (GetWrongthinkChannels E db meta i)"
    and "keeps (\<lambda>st. grown D (fst st)) (GetWrongthinkMessages E db meta q)"
  unfolding DeleteMessage_def BanUser_def CreateUser_def CreateWrongthinkChannel_def
    CreateWrongthinkCommunity_def SendWrongthinkMessageWeb_def SendWrongthinkMessage_def
    SendWrongthinkMessageImpl_def ListenWrongthinkMessages_def ListenWrongthinkMessagesImpl_def
    GetWrongthinkCommunities_def GetWrongthinkCommunitiesImpl_def GetWrongthinkChannels_def
    GetWrongthinkChannelsImpl_def GetWrongthinkMessages_def GetWrongthinkMessagesImpl_def checkForChannel_def
  by (intro keeps_intros keeps_grows_methods [OF dep] keeps_grows_insert_message keeps_grown_send_loop [OF dep])+

lemma keeps_grown_serve:
  assumes dep: "deployment E sch db" and m: "serve E db ctx r = Some m"
  shows "keeps (grown D) m"
proof -
  have "keeps (grown D) m'" if "GenerateUser E db e1 e2 u = Some m'" for e1 e2 u m'
    using that unfolding GenerateUser_def Let_def
    by (auto split: option.splits sum.splits intro!: keeps_intros keeps_grows_methods [OF dep])
  then show ?thesis
    using m
    by (cases r) (auto simp: serve_def intro!: keeps_answer keeps_streamed keeps_grown_handlers [OF dep])
qed

lemma serve_all_grows:
  assumes dep: "deployment E sch db"
  shows "serve_all E db rs s = Some s' \<Longrightarrow> grows (tabs (world_of s)) (tabs (world_of s'))"
proof (induction rs arbitrary: s)
  case (Cons a rs)
  obtain ctx r where a: "a = (ctx, r)" by (rule prod.exhaust)
  obtain m where m: "serve E db ctx r = Some m" using Cons.prems a by (auto split: option.splits)
  obtain res s1 where run: "m s = (res, s1)" by (rule prod.exhaust)
  have step: "grows (tabs (world_of s)) (tabs (world_of s1))"
    using keepsD [OF keeps_grown_serve [OF dep m], of "tabs (world_of s)" s] run by simp
  then show ?case
    using Cons.IH [of s1] Cons.prems a m run by (auto intro: grows_trans split: if_splits)
qed simp

section \<open>Properties\<close>


definition server0 :: server where
  "server0 = \<lparr>world_of = pg_start, channelMap = (\<lambda>_. None)\<rparr>"

definition example_requests :: "(metadata \<times> rpc) list" where
  "example_requests = map (Pair [])
     [CreateUser_rpc \<lparr>cu_uname = ''ann'', cu_password = ''pw'', cu_admin = 0\<rparr>,
      CreateWrongthinkCommunity_rpc \<lparr>co_name = ''com'', co_adminid = 1, co_public = 1\<rparr>,
      CreateWrongthinkChannel_rpc \<lparr>cc_name = ''c1'', cc_communityid = 1, cc_adminid = 1, cc_anonymous = 1\<rparr>,
      SendWrongthinkMessageWeb_rpc hello1, DeleteMessage_rpc]"


text \<open>C10 (nothing is forgotten). Over any run of the server accounts keep their id, token and
  rank, channels keep their id and name, and the stored messages stay, in their order: no request
  deletes or changes any of them.\<close>

theorem nothing_is_forgotten:
  assumes dep: "deployment E sch db" and run: "serve_all E db rs s = Some s'"
  shows "(\<forall>u x. directory (tabs (world_of s)) u = Some x \<longrightarrow> directory (tabs (world_of s')) u = Some x) \<and>
    (\<forall>i n. channel_name (tabs (world_of s)) i = Some n \<longrightarrow> channel_name (tabs (world_of s')) i = Some n) \<and>
    prefix (stored (tabs (world_of s)) Messages) (stored (tabs (world_of s')) Messages)"
proof -
  have g: "grows (tabs (world_of s)) (tabs (world_of s'))" by (rule serve_all_grows [OF dep run])
  then have "prefix (stored (tabs (world_of s)) Messages) (stored (tabs (world_of s')) Messages)"
    by (simp add: grows_def permanent_def)
  with g show ?thesis using grows_directory [OF g] grows_channel_name [OF g] by blast
qed

theorem nothing_is_forgotten_witness:
  "\<exists>s'. serve_all pg0 (pg_db pg0) example_requests chan_server = Some s' \<and>
     directory (tabs (world_of s')) ''ann'' = Some (1, ''pw'', True)"
proof -
  have "serve_all pg0 (pg_db pg0) example_requests chan_server \<noteq> None" by code_simp
  then obtain s' where run: "serve_all pg0 (pg_db pg0) example_requests chan_server = Some s'" by blast
  have "directory (tabs (world_of chan_server)) ''ann'' = Some (1, ''pw'', True)"
    by (simp add: chan_server_def chan_server_facts)
  with nothing_is_forgotten [OF pg0_deployment run] run show ?thesis by blast
qed

end
