(* ===== verification/Threads.thy ===== *)
theory Threads
  imports Prelude
begin

text \<open>
  Computations as threads: sequences of atomic steps on a shared state, run together under a
  schedule. Two logics for them: invariants that every step keeps (\<open>safe\<close>), and rely/guarantee
  specifications (\<open>meets\<close>), where each thread may count on what all of them guarantee, namely an
  invariant and that the state only moves upwards in a preorder.
\<close>

section \<open>Threads\<close>

datatype ('s, 'a) thread = Done "exn + 'a" | Step "'s \<Rightarrow> 's \<times> ('s, 'a) thread"

definition atomic :: "('s, 'a) io \<Rightarrow> ('s, 'a) thread" where
  "atomic m = Step (\<lambda>s. (snd (m s), Done (fst (m s))))"

primrec seq :: "('s, 'a) thread \<Rightarrow> ('a \<Rightarrow> ('s, 'b) thread) \<Rightarrow> ('s, 'b) thread" where
  "seq (Done r) f = (case r of Inl e \<Rightarrow> Done (Inl e) | Inr a \<Rightarrow> f a)"
| "seq (Step g) f = Step (map_prod id (\<lambda>t. seq t f) \<circ> g)"

text \<open>\<^verbatim>\<open>try { t } catch (const std::exception&) { h }\<close>.\<close>

primrec attempt :: "('s, 'a) thread \<Rightarrow> ('s, 'a) thread \<Rightarrow> ('s, 'a) thread" where
  "attempt (Done r) h = (case r of Inl e \<Rightarrow> if e = Undefined then Done r else h | Inr a \<Rightarrow> Done r)"
| "attempt (Step g) h = Step (map_prod id (\<lambda>t. attempt t h) \<circ> g)"

primrec run_thread :: "('s, 'a) thread \<Rightarrow> ('s, 'a) io" where
  "run_thread (Done r) = lift_sum r"
| "run_thread (Step g) = (\<lambda>s. case (map_prod id run_thread \<circ> g) s of (s', m) \<Rightarrow> m s')"

lemma run_atomic: "run_thread (atomic m) = m"
  by (rule ext) (simp add: atomic_def)

lemma run_seq: "run_thread (seq t f) = bind_io (run_thread t) (\<lambda>a. run_thread (f a))"
proof (induction t)
  case (Done r)
  show ?case by (rule ext) (simp add: bind_io_def split: sum.splits)
next
  case (Step g)
  show ?case
  proof
    fix s
    obtain s' t where g: "g s = (s', t)" by (rule prod.exhaust)
    then have "run_thread (seq t f) = bind_io (run_thread t) (\<lambda>a. run_thread (f a))"
      by (intro Step.IH [of "g s" t, OF rangeI]) simp
    with g show "run_thread (seq (Step g) f) s = bind_io (run_thread (Step g)) (\<lambda>a. run_thread (f a)) s"
      by (simp add: bind_io_def)
  qed
qed

lemma run_attempt: "run_thread (attempt t h) = try_catch (run_thread t) (run_thread h)"
proof (induction t)
  case (Done r)
  show ?case by (rule ext) (simp add: try_catch_def split: sum.splits)
next
  case (Step g)
  show ?case
  proof
    fix s
    obtain s' t where g: "g s = (s', t)" by (rule prod.exhaust)
    then have "run_thread (attempt t h) = try_catch (run_thread t) (run_thread h)"
      by (intro Step.IH [of "g s" t, OF rangeI]) simp
    with g show "run_thread (attempt (Step g) h) s = try_catch (run_thread (Step g)) (run_thread h) s"
      by (simp add: try_catch_def)
  qed
qed

text \<open>A schedule names the thread that takes the next step; finished threads take none.\<close>

fun schedule :: "nat list \<Rightarrow> ('s, 'a) thread list \<Rightarrow> 's \<Rightarrow> ('s, 'a) thread list \<times> 's" where
  "schedule [] ts s = (ts, s)"
| "schedule (i # is) ts s = (if i < length ts
     then (case ts ! i of Done r \<Rightarrow> schedule is ts s
       | Step g \<Rightarrow> (case g s of (s', t) \<Rightarrow> schedule is (ts[i := t]) s'))
     else schedule is ts s)"

text \<open>The result of a thread that has finished.\<close>

primrec outcome :: "('s, 'a) thread \<Rightarrow> (exn + 'a) option" where
  "outcome (Done r) = Some r"
| "outcome (Step g) = None"

lemma outcome_Some: "outcome t = Some r \<longleftrightarrow> t = Done r"
  by (cases t) auto

text \<open>\<open>safe P t\<close>: every step that \<open>t\<close> can take keeps \<open>P\<close>.\<close>

primrec safe :: "('s \<Rightarrow> bool) \<Rightarrow> ('s, 'a) thread \<Rightarrow> bool" where
  "safe P (Done r) = True"
| "safe P (Step g) = (\<forall>s. P s \<longrightarrow> (case (map_prod id (safe P) \<circ> g) s of (s', ok) \<Rightarrow> P s' \<and> ok))"

lemma safe_atomic: "keeps P m \<Longrightarrow> safe P (atomic m)"
  by (simp add: atomic_def keeps_def)

lemma safe_seq: "safe P t \<Longrightarrow> (\<And>a. safe P (f a)) \<Longrightarrow> safe P (seq t f)"
proof (induction t)
  case (Done r)
  then show ?case by (auto split: sum.splits)
next
  case (Step g)
  have "P (fst (g s)) \<and> safe P (seq (snd (g s)) f)" if "P s" for s
  proof -
    have "P (fst (g s)) \<and> safe P (snd (g s))" using Step.prems(1) that by (simp add: split_beta)
    then show ?thesis
      using Step.IH [of "g s" "snd (g s)", OF rangeI] Step.prems(2) by (cases "g s") simp
  qed
  then show ?case by (simp add: split_beta)
qed

lemma schedule_safe:
  "P s \<Longrightarrow> list_all (safe P) ts \<Longrightarrow> P (snd (schedule is ts s))"
proof (induction "is" arbitrary: ts s)
  case (Cons i "is")
  show ?case
  proof (cases "i < length ts")
    case True
    show ?thesis
    proof (cases "ts ! i")
      case (Done r)
      with True Cons show ?thesis by simp
    next
      case (Step g)
      obtain s' t where g: "g s = (s', t)" by (rule prod.exhaust)
      have "safe P (ts ! i)" using Cons.prems(2) True by (simp add: list_all_length)
      then have "P s'" "safe P t" using Cons.prems(1) Step g by auto
      moreover have "list_all (safe P) (ts[i := t])"
        using Cons.prems(2) \<open>safe P t\<close> set_update_subset_insert [of ts i t] by (auto simp: list_all_iff)
      ultimately show ?thesis using Cons.IH [of s' "ts[i := t]"] True Step g by simp
    qed
  qed (use Cons in simp)
qed simp

lemma run_Done: "run_thread (Done r) = lift_sum r"
  by simp

lemma lift_sum_cases: "lift_sum (Inl e) = raise e" "lift_sum (Inr a) = ret a"
  by (rule ext, simp)+

lemma safe_if: "(b \<Longrightarrow> safe P t) \<Longrightarrow> (\<not> b \<Longrightarrow> safe P u) \<Longrightarrow> safe P (if b then t else u)"
  by simp

lemma safe_Done: "safe P (Done r)"
  by simp

section \<open>Rely and guarantee\<close>

text \<open>
  \<open>meets I le Q t s\<close>: from \<open>s\<close> on, in any environment that keeps \<open>I\<close> and moves upwards in \<open>le\<close>,
  the thread's steps do the same, and its result satisfies \<open>Q\<close> in every later state.
\<close>

primrec meets ::
  "('s \<Rightarrow> bool) \<Rightarrow> ('s \<Rightarrow> 's \<Rightarrow> bool) \<Rightarrow> (exn + 'a \<Rightarrow> 's \<Rightarrow> bool) \<Rightarrow> ('s, 'a) thread \<Rightarrow> 's \<Rightarrow> bool" where
  "meets I le Q (Done r) = (\<lambda>s. \<forall>s'. I s' \<and> le s s' \<longrightarrow> Q r s')"
| "meets I le Q (Step g) = (\<lambda>s. \<forall>s'. I s' \<and> le s s' \<longrightarrow>
     (case (map_prod id (meets I le Q) \<circ> g) s' of (s'', k) \<Rightarrow> I s'' \<and> le s' s'' \<and> k s''))"

text \<open>
  \<open>claims I T W t\<close>: a result of \<open>t\<close> with \<open>W\<close> requires a step that makes \<open>T\<close> true where it was
  false.
\<close>

primrec claims :: "('s \<Rightarrow> bool) \<Rightarrow> ('s \<Rightarrow> bool) \<Rightarrow> (exn + 'a \<Rightarrow> bool) \<Rightarrow> ('s, 'a) thread \<Rightarrow> bool" where
  "claims I T W (Done r) = (\<not> W r)"
| "claims I T W (Step g) = (\<forall>s. I s \<longrightarrow>
     (case (map_prod id (claims I T W) \<circ> g) s of (s', k) \<Rightarrow> k \<or> \<not> T s \<and> T s'))"

lemma claims_Step: "claims I T W (Step g) \<Longrightarrow> I s \<Longrightarrow> g s = (s', t) \<Longrightarrow> claims I T W t \<or> \<not> T s \<and> T s'"
  by fastforce

lemma claims_StepI:
  assumes "\<And>s s' t. I s \<Longrightarrow> g s = (s', t) \<Longrightarrow> claims I T W t \<or> \<not> T s \<and> T s'"
  shows "claims I T W (Step g)"
  unfolding claims.simps
proof (intro allI impI)
  fix s assume "I s"
  moreover obtain s' t where g: "g s = (s', t)" by (rule prod.exhaust)
  ultimately have "claims I T W t \<or> \<not> T s \<and> T s'" by (rule assms)
  with g show "case (map_prod id (claims I T W) \<circ> g) s of (s', k) \<Rightarrow> k \<or> \<not> T s \<and> T s'" by simp
qed

lemma claims_atomic_seq:
  assumes "\<And>s r s'. I s \<Longrightarrow> m s = (r, s') \<Longrightarrow>
    (case r of Inl e \<Rightarrow> \<not> W (Inl e) | Inr a \<Rightarrow> claims I T W (f a)) \<or> \<not> T s \<and> T s'"
  shows "claims I T W (seq (atomic m) f)"
  unfolding atomic_def seq.simps
proof (rule claims_StepI)
  fix s s' u assume s: "I s" and u: "(map_prod id (\<lambda>t. seq t f) \<circ> (\<lambda>s. (snd (m s), Done (fst (m s))))) s = (s', u)"
  then have m: "m s = (fst (m s), s')" "u = seq (Done (fst (m s))) f" by auto
  from assms [OF s m(1)] show "claims I T W u \<or> \<not> T s \<and> T s'"
    unfolding m(2) by (auto split: sum.splits)
qed

lemma claims_free:
  assumes "\<And>e. \<not> W (Inl e)" and "\<And>a. claims I T W (f a)"
  shows "claims I T W (seq (atomic m) f)" and "claims I T W (seq (Done r) f)"
proof -
  have ok: "case r of Inl e \<Rightarrow> \<not> W (Inl e) | Inr a \<Rightarrow> claims I T W (f a)" for r
    using assms by (cases r) simp_all
  then show "claims I T W (seq (atomic m) f)" by (intro claims_atomic_seq disjI1)
  show "claims I T W (seq (Done r) f)" using assms by (cases r) simp_all
qed

lemma claims_then:
  assumes "claims I T W' t" and "\<And>e. W (Inl e) \<Longrightarrow> W' (Inl e)" and "\<And>a. W (h a) \<Longrightarrow> W' (Inr a)"
  shows "claims I T W (seq t (\<lambda>a. Done (h a)))"
  using assms(1)
proof (induction t)
  case (Done r)
  then show ?case using assms(2,3) by (auto split: sum.splits)
next
  case (Step g)
  show ?case
    unfolding seq.simps
  proof (rule claims_StepI)
    fix s s' u assume s: "I s" and u: "(map_prod id (\<lambda>t. seq t (\<lambda>a. Done (h a))) \<circ> g) s = (s', u)"
    then obtain t where t: "g s = (s', t)" "u = seq t (\<lambda>a. Done (h a))" by (cases "g s") auto
    with claims_Step [OF Step.prems s t(1)] Step.IH [of "g s" t, OF rangeI]
    show "claims I T W u \<or> \<not> T s \<and> T s'" by auto
  qed
qed

lemma claims_attempt:
  assumes "claims I T W t" and "\<not> W r"
  shows "claims I T W (attempt t (Done r))"
  using assms(1)
proof (induction t)
  case (Done q)
  then show ?case using assms(2) by (auto split: sum.splits)
next
  case (Step g)
  show ?case
    unfolding attempt.simps
  proof (rule claims_StepI)
    fix s s' u assume s: "I s" and u: "(map_prod id (\<lambda>t. attempt t (Done r)) \<circ> g) s = (s', u)"
    then obtain t where t: "g s = (s', t)" "u = attempt t (Done r)" by (cases "g s") auto
    with claims_Step [OF Step.prems s t(1)] Step.IH [of "g s" t, OF rangeI]
    show "claims I T W u \<or> \<not> T s \<and> T s'" by auto
  qed
qed

locale rely =
  fixes I :: "'s \<Rightarrow> bool" and le :: "'s \<Rightarrow> 's \<Rightarrow> bool"
  assumes le_refl: "le s s" and le_trans: "le s t \<Longrightarrow> le t u \<Longrightarrow> le s u"
begin

lemma meets_Step:
  assumes "meets I le Q (Step g) s" and "I s'" and "le s s'" and "g s' = (s'', t)"
  shows "I s''" and "le s' s''" and "meets I le Q t s''"
proof -
  have "case (map_prod id (meets I le Q) \<circ> g) s' of (s'', k) \<Rightarrow> I s'' \<and> le s' s'' \<and> k s''"
    using assms(1-3) by simp
  with assms(4) show "I s''" "le s' s''" "meets I le Q t s''" by simp_all
qed

lemma meets_StepI:
  assumes "\<And>s' s'' t. I s' \<Longrightarrow> le s s' \<Longrightarrow> g s' = (s'', t) \<Longrightarrow> I s'' \<and> le s' s'' \<and> meets I le Q t s''"
  shows "meets I le Q (Step g) s"
  unfolding meets.simps
proof (intro allI impI)
  fix s' assume s': "I s' \<and> le s s'"
  obtain s'' t where g: "g s' = (s'', t)" by (rule prod.exhaust)
  with s' have "I s'' \<and> le s' s'' \<and> meets I le Q t s''" by (intro assms) simp_all
  with g show "case (map_prod id (meets I le Q) \<circ> g) s' of (s'', k) \<Rightarrow> I s'' \<and> le s' s'' \<and> k s''"
    by simp
qed

lemma meets_later: "meets I le Q t s \<Longrightarrow> le s s' \<Longrightarrow> meets I le Q t s'"
  by (cases t) (auto intro: le_trans)

lemma meets_cons:
  assumes "meets I le Q t s" and "\<And>r s'. I s' \<Longrightarrow> Q r s' \<Longrightarrow> Q' r s'"
  shows "meets I le Q' t s"
  using assms(1)
proof (induction t arbitrary: s)
  case (Step g)
  show ?case
  proof (rule meets_StepI)
    fix s' s'' t assume here: "I s'" "le s s'" "g s' = (s'', t)"
    note st = meets_Step [OF Step.prems here]
    have "meets I le Q' t s''"
      by (rule Step.IH [of "g s'" t, OF rangeI]) (use st(3) here(3) in simp_all)
    with st show "I s'' \<and> le s' s'' \<and> meets I le Q' t s''" by simp
  qed
qed (simp add: assms(2))

lemma meets_now: "meets I le Q (Done r) s \<Longrightarrow> I s \<Longrightarrow> Q r s"
  by (simp add: le_refl)

lemma meets_Done: "(\<And>s'. I s' \<Longrightarrow> le s s' \<Longrightarrow> Q r s') \<Longrightarrow> meets I le Q (Done r) s"
  by simp

lemma meets_atomic:
  assumes "\<And>s' r s''. I s' \<Longrightarrow> le s s' \<Longrightarrow> m s' = (r, s'') \<Longrightarrow>
    I s'' \<and> le s' s'' \<and> (\<forall>s3. I s3 \<longrightarrow> le s'' s3 \<longrightarrow> Q r s3)"
  shows "meets I le Q (atomic m :: ('s, 'a) thread) s"
  unfolding atomic_def
proof (rule meets_StepI)
  fix s' s'' and t :: "('s, 'a) thread" assume s': "I s'" "le s s'" and t: "(snd (m s'), Done (fst (m s'))) = (s'', t)"
  from t have "m s' = (fst (m s'), s'')" by (simp add: prod_eq_iff)
  from assms [OF s' this] have "I s'' \<and> le s' s'' \<and> (\<forall>s3. I s3 \<longrightarrow> le s'' s3 \<longrightarrow> Q (fst (m s')) s3)" .
  with t show "I s'' \<and> le s' s'' \<and> meets I le Q t s''" by auto
qed

lemma meets_keeps:
  assumes "keeps I m" and "\<And>D. keeps (le D) m"
  shows "meets I le (\<lambda>_ _. True) (atomic m) s"
  using keepsD [OF assms(1)] keepsD [OF assms(2), of s' s' for s'] le_refl
  by (intro meets_atomic) (metis snd_conv)

lemma meets_seq:
  assumes "meets I le Q' t s" and "I s"
    and "\<And>e s'. I s' \<Longrightarrow> le s s' \<Longrightarrow> Q' (Inl e) s' \<Longrightarrow> Q (Inl e) s'"
    and "\<And>a s'. I s' \<Longrightarrow> le s s' \<Longrightarrow> Q' (Inr a) s' \<Longrightarrow> meets I le Q (f a) s'"
  shows "meets I le Q (seq t f) s"
  using assms
proof (induction t arbitrary: s)
  case (Done r)
  then show ?case by (cases r) (simp_all add: le_refl)
next
  case (Step g)
  show ?case
    unfolding seq.simps
  proof (rule meets_StepI)
    fix s' s'' u assume here: "I s'" "le s s'" and u: "(map_prod id (\<lambda>t. seq t f) \<circ> g) s' = (s'', u)"
    then obtain t where t: "g s' = (s'', t)" "u = seq t f" by (cases "g s'") auto
    note st = meets_Step [OF Step.prems(1) here t(1)]
    have le: "le s x" if u': "le s'' x" for x
      by (rule le_trans [OF here(2) le_trans [OF st(2) u']])
    have "meets I le Q (seq t f) s''"
      by (rule Step.IH [of "g s'" t, OF rangeI]) (use st le t Step.prems(3,4) in simp_all)
    with st t show "I s'' \<and> le s' s'' \<and> meets I le Q u s''" by simp
  qed
qed

lemma meets_attempt:
  assumes "meets I le Q' t s" and "I s"
    and "\<And>r s'. I s' \<Longrightarrow> le s s' \<Longrightarrow> Q' r s' \<Longrightarrow> r = Inl Undefined \<or> (\<exists>a. r = Inr a) \<Longrightarrow> Q r s'"
    and "\<And>e s'. I s' \<Longrightarrow> le s s' \<Longrightarrow> Q' (Inl e) s' \<Longrightarrow> meets I le Q h s'"
  shows "meets I le Q (attempt t h) s"
  using assms
proof (induction t arbitrary: s)
  case (Done r)
  then show ?case by (cases r) (auto simp: le_refl)
next
  case (Step g)
  show ?case
    unfolding attempt.simps
  proof (rule meets_StepI)
    fix s' s'' u assume here: "I s'" "le s s'" and u: "(map_prod id (\<lambda>t. attempt t h) \<circ> g) s' = (s'', u)"
    then obtain t where t: "g s' = (s'', t)" "u = attempt t h" by (cases "g s'") auto
    note st = meets_Step [OF Step.prems(1) here t(1)]
    have le: "le s x" if u': "le s'' x" for x
      by (rule le_trans [OF here(2) le_trans [OF st(2) u']])
    have "meets I le Q (attempt t h) s''"
      by (rule Step.IH [of "g s'" t, OF rangeI]) (use st le t Step.prems(3,4) in simp_all)
    with st t show "I s'' \<and> le s' s'' \<and> meets I le Q u s''" by simp
  qed
qed

text \<open>Threads without a promise about their result.\<close>

abbreviation harmless :: "('s, 'a) thread \<Rightarrow> bool" where
  "harmless t \<equiv> \<forall>s. I s \<longrightarrow> meets I le (\<lambda>_ _. True) t s"

lemma harmless_Done: "harmless (Done r)"
  by simp

lemma harmless_atomic: "keeps I m \<Longrightarrow> (\<And>D. keeps (le D) m) \<Longrightarrow> harmless (atomic m)"
  using meets_keeps by blast

lemma harmless_seq:
  assumes "harmless t" and "\<And>a. harmless (f a)"
  shows "harmless (seq t f)"
proof (intro allI impI)
  fix s assume "I s"
  with assms show "meets I le (\<lambda>_ _. True) (seq t f) s"
    by (intro meets_seq [where Q' = "\<lambda>_ _. True"]) simp_all
qed

lemma harmless_attempt:
  assumes "harmless t" and "harmless h"
  shows "harmless (attempt t h)"
proof (intro allI impI)
  fix s assume "I s"
  with assms show "meets I le (\<lambda>_ _. True) (attempt t h) s"
    by (intro meets_attempt [where Q' = "\<lambda>_ _. True"]) simp_all
qed

lemma harmless_if: "(b \<Longrightarrow> harmless t) \<Longrightarrow> (\<not> b \<Longrightarrow> harmless u) \<Longrightarrow> harmless (if b then t else u)"
  by simp

lemma harmless_prod: "(\<And>a b. harmless (f a b)) \<Longrightarrow> harmless (case x of (a, b) \<Rightarrow> f a b)"
  by (cases x) simp

lemma harmless_sum:
  "(\<And>e. harmless (f e)) \<Longrightarrow> (\<And>a. harmless (g a)) \<Longrightarrow> harmless (case x of Inl e \<Rightarrow> f e | Inr a \<Rightarrow> g a)"
  by (cases x) simp_all

lemma harmless_option:
  "harmless t \<Longrightarrow> (\<And>a. harmless (f a)) \<Longrightarrow> harmless (case x of None \<Rightarrow> t | Some a \<Rightarrow> f a)"
  by (cases x) simp_all

lemmas harmless_intros = harmless_Done harmless_seq harmless_attempt harmless_if harmless_prod harmless_sum
  harmless_option

text \<open>Threads that meet their specifications do so together, under every schedule.\<close>

lemma schedule_meets:
  assumes "I s" and "\<And>i. i < length ts \<Longrightarrow> meets I le (Q i) (ts ! i) s"
    and "schedule is ts s = (ts', s')"
  shows "I s' \<and> le s s' \<and> length ts' = length ts \<and> (\<forall>i < length ts. meets I le (Q i) (ts' ! i) s')"
  using assms
proof (induction "is" arbitrary: ts s)
  case Nil
  then show ?case by (simp add: le_refl)
next
  case (Cons i "is")
  note IH = Cons.IH and pre = Cons.prems
  show ?case
  proof (cases "i < length ts \<and> (\<exists>g. ts ! i = Step g)")
    case True
    then obtain g where i: "i < length ts" "ts ! i = Step g" by blast
    obtain s1 t where g: "g s = (s1, t)" by (rule prod.exhaust)
    have "meets I le (Q i) (Step g) s" using pre(2) [OF i(1)] i(2) by simp
    note st = meets_Step [OF this pre(1) le_refl g]
    have "meets I le (Q j) (ts[i := t] ! j) s1" if "j < length (ts[i := t])" for j
    proof (cases "j = i")
      case False
      then have "meets I le (Q j) (ts ! j) s" using that by (intro pre(2)) simp
      from meets_later [OF this st(2)] False show ?thesis by simp
    qed (use st(3) i in simp)
    moreover have "schedule is (ts[i := t]) s1 = (ts', s')" using pre(3) i g by simp
    ultimately have "I s' \<and> le s1 s' \<and> length ts' = length ts \<and> (\<forall>i < length ts. meets I le (Q i) (ts' ! i) s')"
      using IH [of s1 "ts[i := t]"] st(1) by (metis length_list_update)
    with le_trans [OF st(2)] show ?thesis by blast
  next
    case False
    then have "schedule is ts s = (ts', s')" using pre(3) by (auto split: thread.splits if_splits)
    with IH [OF pre(1,2)] show ?thesis by blast
  qed
qed

text \<open>Of the threads in \<open>J\<close>, which all claim the same \<open>T\<close>, at most one gets it.\<close>

lemma schedule_claims:
  assumes "I s" and "\<And>i. i < length ts \<Longrightarrow> meets I le (Q i) (ts ! i) s"
    and mono: "\<And>s s'. le s s' \<Longrightarrow> T s \<Longrightarrow> T s'" and J: "J \<subseteq> {..<length ts}"
    and "(\<forall>j \<in> J. claims I T W (ts ! j)) \<or> T s \<and> (\<exists>i. \<forall>j \<in> J - {i}. claims I T W (ts ! j))"
    and "schedule is ts s = (ts', s')"
  shows "\<exists>i. \<forall>j \<in> J - {i}. claims I T W (ts' ! j)"
  using assms(1,2,4-)
proof (induction "is" arbitrary: ts s)
  case Nil
  then show ?case by auto
next
  case (Cons n "is")
  note IH = Cons.IH and pre = Cons.prems
  show ?case
  proof (cases "n < length ts \<and> (\<exists>g. ts ! n = Step g)")
    case True
    then obtain g where n: "n < length ts" "ts ! n = Step g" by blast
    obtain s1 t where g: "g s = (s1, t)" by (rule prod.exhaust)
    have "meets I le (Q n) (Step g) s" using pre(2) [OF n(1)] n(2) by simp
    note st = meets_Step [OF this pre(1) le_refl g]
    have meet: "meets I le (Q j) (ts[n := t] ! j) s1" if "j < length (ts[n := t])" for j
    proof (cases "j = n")
      case False
      then have "meets I le (Q j) (ts ! j) s" using that by (intro pre(2)) simp
      from meets_later [OF this st(2)] False show ?thesis by simp
    qed (use st(3) n in simp)
    have step: "claims I T W t \<or> \<not> T s \<and> T s1" if "claims I T W (ts ! n)"
      using claims_Step [of I T W g s s1 t] that pre(1) g n(2) by simp
    have new: "claims I T W (ts[n := t] ! j)" if "claims I T W (ts ! j)" "j = n \<longrightarrow> claims I T W t" for j
      using that n(1) by (cases "j = n") simp_all
    have "(\<forall>j \<in> J. claims I T W (ts[n := t] ! j)) \<or>
        T s1 \<and> (\<exists>i. \<forall>j \<in> J - {i}. claims I T W (ts[n := t] ! j))"
      using pre(4)
    proof
      assume all: "\<forall>j \<in> J. claims I T W (ts ! j)"
      show ?thesis
      proof (cases "n \<in> J \<longrightarrow> claims I T W t")
        case True
        with all show ?thesis using new by blast
      next
        case False
        with all step have "T s1" by blast
        moreover have "\<forall>j \<in> J - {n}. claims I T W (ts[n := t] ! j)" using all new by blast
        ultimately show ?thesis by blast
      qed
    next
      assume T: "T s \<and> (\<exists>i. \<forall>j \<in> J - {i}. claims I T W (ts ! j))"
      then obtain i where "\<forall>j \<in> J - {i}. claims I T W (ts ! j)" by blast
      then have "\<forall>j \<in> J - {i}. claims I T W (ts[n := t] ! j)" using T step new by blast
      with mono [OF st(2)] T show ?thesis by blast
    qed
    moreover have "J \<subseteq> {..<length (ts[n := t])}" using pre(3) by simp
    moreover have "schedule is (ts[n := t]) s1 = (ts', s')" using pre(5) n g by simp
    ultimately show ?thesis using IH [OF st(1) meet] by blast
  next
    case False
    then have "schedule is ts s = (ts', s')" using pre(5) by (auto split: thread.splits if_splits)
    with IH [OF pre(1,2,3,4)] show ?thesis by blast
  qed
qed

lemma schedule_results:
  assumes "I s" and "\<And>i. i < length ts \<Longrightarrow> meets I le (Q i) (ts ! i) s"
    and "schedule is ts s = (ts', s')" and "i < length ts" and "outcome (ts' ! i) = Some r"
  shows "Q i r s'"
proof -
  from schedule_meets [OF assms(1-3)] assms(4) have "meets I le (Q i) (ts' ! i) s'" "I s'" by blast+
  with meets_now assms(5) show ?thesis by (metis outcome_Some)
qed

end


section \<open>Fair schedules\<close>

text \<open>A thread that gets its turn again and again finishes, whatever the others do.\<close>

definition finished :: "('s, 'a) thread \<Rightarrow> bool" where
  "finished t \<longleftrightarrow> outcome t \<noteq> None"

definition fair_to :: "nat \<Rightarrow> (nat \<Rightarrow> nat) \<Rightarrow> bool" where
  "fair_to i \<sigma> \<longleftrightarrow> (\<forall>n. \<exists>m \<ge> n. \<sigma> m = i)"

lemma schedule_append:
  "schedule (xs @ ys) ts s = (case schedule xs ts s of (ts', s') \<Rightarrow> schedule ys ts' s')"
  by (induction xs arbitrary: ts s) (simp_all split: thread.splits prod.splits)

lemma schedule_length: "length (fst (schedule is ts s)) = length ts"
  by (induction "is" arbitrary: ts s) (simp_all split: thread.splits prod.splits)

lemma scheduled_outcome:
  assumes "map outcome (fst (schedule is ts s)) = os" and "i < length os"
  shows "i < length ts" and "outcome (fst (schedule is ts s) ! i) = os ! i"
proof -
  have len: "length (fst (schedule is ts s)) = length os" using assms(1) by (metis length_map)
  then show "i < length ts" using assms(2) by (simp add: schedule_length)
  show "outcome (fst (schedule is ts s) ! i) = os ! i"
    using assms len by (metis nth_map)
qed

lemma schedule_other: "i \<notin> set is \<Longrightarrow> fst (schedule is ts s) ! i = ts ! i"
  by (induction "is" arbitrary: ts s) (auto split: thread.splits prod.splits)

lemma fair_to_shift:
  assumes "fair_to i \<sigma>"
  shows "fair_to i (\<lambda>n. \<sigma> (k + n))"
  unfolding fair_to_def
proof
  fix n
  obtain m where "m \<ge> k + n" "\<sigma> m = i" using assms unfolding fair_to_def by blast
  then show "\<exists>m \<ge> n. \<sigma> (k + m) = i" by (intro exI [of _ "m - k"]) simp
qed

lemma fair_schedule_finishes:
  assumes "fair_to i \<sigma>" and "i < length ts"
  shows "\<exists>n. finished (fst (schedule (map \<sigma> [0..<n]) ts s) ! i)"
proof -
  have "\<And>\<sigma> ts s. fair_to i \<sigma> \<Longrightarrow> i < length ts \<Longrightarrow> ts ! i = t \<Longrightarrow>
      \<exists>n. finished (fst (schedule (map \<sigma> [0..<n]) ts s) ! i)" for t :: "('a, 'b) thread"
  proof (induction t)
    case (Done r)
    then show ?case by (intro exI [of _ 0]) (simp add: finished_def)
  next
    case (Step g)
    obtain m where m: "\<sigma> m = i" "\<forall>j < m. \<sigma> j \<noteq> i"
      using Step.prems(1) exists_least_iff [of "\<lambda>m. \<sigma> m = i"] unfolding fair_to_def by blast
    obtain ts1 s1 where before: "schedule (map \<sigma> [0..<m]) ts s = (ts1, s1)" by (rule prod.exhaust)
    have "i \<notin> set (map \<sigma> [0..<m])" using m(2) by (auto simp: image_iff)
    then have ts1: "ts1 ! i = Step g" "i < length ts1"
      using schedule_other [of i "map \<sigma> [0..<m]" ts s] schedule_length [of "map \<sigma> [0..<m]" ts s] before Step.prems
      by simp_all
    obtain s2 t where g: "g s1 = (s2, t)" by (rule prod.exhaust)
    have now: "schedule (map \<sigma> [0..<Suc m]) ts s = (ts1[i := t], s2)"
      using before ts1 g m(1) by (simp add: schedule_append)
    obtain n where "finished (fst (schedule (map (\<lambda>n. \<sigma> (Suc m + n)) [0..<n]) (ts1[i := t]) s2) ! i)"
      using Step.IH [of "g s1" t "\<lambda>n. \<sigma> (Suc m + n)" "ts1[i := t]" s2, OF rangeI] g ts1(2)
        fair_to_shift [OF Step.prems(1), of "Suc m"] by auto
    moreover have "map \<sigma> [0..<Suc m + n] = map \<sigma> [0..<Suc m] @ map (\<lambda>n. \<sigma> (Suc m + n)) [0..<n]"
      by (rule nth_equalityI) (auto simp: nth_append nth_upt simp del: upt_Suc)
    ultimately have "finished (fst (schedule (map \<sigma> [0..<Suc m + n]) ts s) ! i)"
      by (simp only: schedule_append now) simp
    then show ?case by blast
  qed
  with assms show ?thesis by blast
qed

end
