(* ===== verification/Interleaving.thy ===== *)
theory Interleaving
  imports Contract Threads
begin

text \<open>
  Database calls of concurrent handlers. Every statement runs in a transaction of its own, so two
  calls can interleave between any two of their statements. A call is a thread whose steps are its
  statements; run on its own it is the method of \<open>Database\<close>. The invariant of the stored data
  holds under every schedule; that the first user alone becomes an administrator does not.
\<close>

section \<open>The calls\<close>

text \<open>The methods that change the data, and the two checks on users, statement by statement.\<close>

definition createUser_thread :: "env \<Rightarrow> string \<Rightarrow> string \<Rightarrow> int \<Rightarrow> (world, int \<times> int) thread" where
  "createUser_thread E uname token admin =
     seq (atomic (getSociSession E)) (\<lambda>_.
     seq (atomic (query E (select_from E Users [(Col ''admin'', IntV 1)]))) (\<lambda>R.
     seq (Done (soci_int E (IntV (int (length (snd R)))))) (\<lambda>adminct.
     let admin = (if adminct = 0 then 1 else admin) in
     seq (atomic (exec E (insert_into E Users
        [(''uname'', Val (TextV uname)), (''token'', Val (TextV token)), (''admin'', Val (IntV admin))]))) (\<lambda>_.
     seq (atomic (query E (\<lambda>d. bind_sum (select_from E Users [(Col ''uname'', TextV uname)] d)
                             (\<lambda>R. into_int E R ''user_id'' 0)))) (\<lambda>uid.
     Done (Inr (uid, admin)))))))"

definition banUser_thread :: "env \<Rightarrow> string \<Rightarrow> int \<Rightarrow> (world, unit) thread" where
  "banUser_thread E uname days =
     seq (atomic (getSociSession E)) (\<lambda>_.
     seq (Done (ban_span days)) (\<lambda>days.
     seq (atomic (query E (select_from E Users [(Col ''uname'', TextV uname)]))) (\<lambda>R.
     if got_data R
     then seq (Done (into_int E R ''user_id'' 0)) (\<lambda>uid.
          seq (atomic (query E (select_from E BannedUsers [(Col ''user_id'', IntV uid)]))) (\<lambda>B.
          atomic (if got_data B
          then exec E (update_set E BannedUsers ''expire'' (NowPlus days) [(Col ''user_id'', IntV uid)])
          else exec E (insert_into E BannedUsers
                 [(''user_id'', Val (IntV uid)), (''expire'', NowPlus days)]))))
     else Done (Inl UserNotFound))))"

definition isUserValid_thread :: "env \<Rightarrow> string \<Rightarrow> string \<Rightarrow> (world, bool) thread" where
  "isUserValid_thread E uname token =
     seq (atomic (getSociSession E)) (\<lambda>_.
     seq (atomic (query E (select_from E Users [(Col ''uname'', TextV uname), (Col ''token'', TextV token)])))
       (\<lambda>R. Done (Inr (got_data R))))"

definition isUserAdmin_thread :: "env \<Rightarrow> string \<Rightarrow> (world, bool) thread" where
  "isUserAdmin_thread E uname =
     seq (atomic (getSociSession E)) (\<lambda>_.
     seq (atomic (query E (select_from E Users [(Col ''uname'', TextV uname), (Col ''admin'', IntV 1)])))
       (\<lambda>R. Done (Inr (got_data R))))"

definition createChannel_thread :: "env \<Rightarrow> string \<Rightarrow> int \<Rightarrow> int \<Rightarrow> int \<Rightarrow> (world, int) thread" where
  "createChannel_thread E name community admin_id anonymous =
     seq (atomic (getSociSession E)) (\<lambda>_.
     seq (atomic (exec E (insert_into E Channels
        [(''name'', Val (TextV name)), (''community'', Val (IntV community)),
         (''admin'', Val (IntV admin_id)), (''allow_anon'', Val (IntV anonymous))]))) (\<lambda>_.
     atomic (query E (\<lambda>d. bind_sum (select_from E Channels [(Col ''name'', TextV name)] d)
                    (\<lambda>R. into_int E R ''channel_id'' 0)))))"

definition createCommunity_thread :: "env \<Rightarrow> string \<Rightarrow> int \<Rightarrow> int \<Rightarrow> (world, int) thread" where
  "createCommunity_thread E name admin pub =
     seq (atomic (getSociSession E)) (\<lambda>_.
     seq (atomic (exec E (insert_into E Communities
        [(''name'', Val (TextV name)), (''admin'', Val (IntV admin)), (''public'', Val (IntV pub))]))) (\<lambda>_.
     seq (atomic (query E (select_from E Communities [(Col ''name'', TextV name)]))) (\<lambda>R.
     Done (if got_data R then into_int E R ''community_id'' 0 else Inl Undefined))))"

datatype db_call =
    CreateUser_call string string int
  | BanUser_call string int
  | CreateChannel_call string int int int
  | CreateCommunity_call string int int

text \<open>The calls that change the data, with one type of result.\<close>

fun db_thread :: "env \<Rightarrow> db_call \<Rightarrow> (world, (int \<times> int) option) thread" where
  "db_thread E (CreateUser_call u k a) = seq (createUser_thread E u k a) (\<lambda>r. Done (Inr (Some r)))"
| "db_thread E (BanUser_call u n) = seq (banUser_thread E u n) (\<lambda>_. Done (Inr None))"
| "db_thread E (CreateChannel_call n c i a) = seq (createChannel_thread E n c i a) (\<lambda>r. Done (Inr (Some (r, a))))"
| "db_thread E (CreateCommunity_call n i a) = seq (createCommunity_thread E n i a) (\<lambda>r. Done (Inr (Some (r, a))))"

text \<open>A thread that is left alone is the method.\<close>

lemma createUser_thread_run: "run_thread (createUser_thread E u k a) = pg_createUser E u k a"
  unfolding createUser_thread_def pg_createUser_def Let_def run_seq run_atomic run_Done
  by (simp only: lift_sum_cases)

lemma banUser_thread_run: "run_thread (banUser_thread E u n) = pg_banUser E u n"
  unfolding banUser_thread_def pg_banUser_def run_seq run_atomic run_Done if_distrib [of run_thread]
  by (simp only: lift_sum_cases)

lemma reads_thread_run:
  "run_thread (isUserValid_thread E u k) = pg_isUserValid E u k"
  "run_thread (isUserAdmin_thread E u) = pg_isUserAdmin E u"
  unfolding isUserValid_thread_def pg_isUserValid_def isUserAdmin_thread_def pg_isUserAdmin_def
    run_seq run_atomic run_Done
  by (simp_all only: lift_sum_cases)

lemma creates_thread_run:
  "run_thread (createChannel_thread E n c i a) = pg_createChannel E n c i a"
  "run_thread (createCommunity_thread E n i a) = pg_createCommunity E n i a"
  unfolding createChannel_thread_def pg_createChannel_def createCommunity_thread_def pg_createCommunity_def
    run_seq run_atomic run_Done if_distrib [of lift_sum] lift_sum_cases
  by (rule refl)+

context backend
begin

lemma safe_creates:
  "safe inv_world (createChannel_thread E n c i a)"
  "safe inv_world (createCommunity_thread E n i a)"
  unfolding createChannel_thread_def createCommunity_thread_def
  by (intro safe_seq safe_atomic safe_Done keeps_session keeps_query keeps_insert suit_channel suit_community)+

lemma safe_createUser: "safe inv_world (createUser_thread E u k a)"
  unfolding createUser_thread_def Let_def
  by (intro safe_seq safe_atomic safe_Done keeps_session keeps_query keeps_insert suit_user)

lemma safe_banUser: "safe inv_world (banUser_thread E u n)"
  unfolding banUser_thread_def
  by (intro safe_seq safe_atomic safe_Done safe_if keeps_session keeps_query keeps_if keeps_insert keeps_update suit_ban)

lemma safe_db_thread: "safe inv_world (db_thread E c)"
  by (cases c) (simp_all add: safe_seq safe_createUser safe_banUser safe_creates)

text \<open>Two registrations that both count the administrators before either inserts its user.\<close>

lemma both_count_first:
  assumes inv: "inv_world w" and up: "session_up E (sessions w)" "session_up E (Suc (sessions w))"
    and tb: "tabs w Users = Some tb" and room: "seqno tb + 2 \<le> 2147483647"
    and none: "\<not> has_admin (directory (tabs w))"
    and new: "directory (tabs w) u = None" "directory (tabs w) v = None" "u \<noteq> v"
    and len: "utf8_length u \<le> 50" "utf8_length k \<le> 50" "utf8_length v \<le> 50" "utf8_length l \<le> 50"
  obtains i j w' where "schedule [0, 1, 0, 1, 0, 1, 0, 1]
      (map (db_thread E) [CreateUser_call u k 0, CreateUser_call v l 0]) w =
      ([Done (Inr (Some (i, 1))), Done (Inr (Some (j, 1)))], w')"
    and "directory (tabs w') = (directory (tabs w))(u \<mapsto> (i, k, True), v \<mapsto> (j, l, True))"
proof -
  let ?d = "tabs w"
  define i where "i = next_id tb 0"
  define tb1 where "tb1 = with_row tb [IntV i, TextV u, TextV k, IntV 1]"
  define d1 where "d1 = ?d(Users \<mapsto> tb1)"
  define j where "j = next_id tb1 0"
  define tb2 where "tb2 = with_row tb1 [IntV j, TextV v, TextV l, IntV 1]"
  define d2 where "d2 = d1(Users \<mapsto> tb2)"
  have tb1: "d1 Users = Some tb1" by (simp add: d1_def)
  have sel: "select_from E Users [(Col ''admin'', IntV 1)] ?d = Inr (header_of Users, [])"
    using select_from_eq [OF server_inv_installed [OF inv] resolve_users(4)] admin_rows [OF inv] none scan_Nil_iff by simp
  have free: "TextV u \<notin> set (column_values tb 1)" "TextV v \<notin> set (column_values tb1 1)"
    using new tb by (auto simp: directory_None stored_def column_values_def tb1_def)
  have "int32 i"
    using next_id_bounds(1,2) [of tb 0] server_inv_table(1,2) [OF inv tb] first_key(2,3) [of Users] room
    by (simp add: int32_def i_def)
  then have ins1: "insert_into E Users [(''uname'', Val (TextV u)), (''token'', Val (TextV k)), (''admin'', Val (IntV 1))]
      now ?d = (Inr (), d1)" for now
    using insert_user [OF inv tb len(1,2), of 1 now] free(1) by (simp add: d1_def tb1_def i_def)
  have inv1: "server_inv E sch d1"
    using insert_into_sound [OF inv suit_user, of u k 1 0] ins1 [of 0] by simp
  have "int32 j"
    using next_id_bounds(1,2) [of tb1 0] server_inv_table(1,2) [OF inv1 tb1] first_key(2,3) [of Users] room
    by (simp add: int32_def j_def) (simp add: tb1_def)
  then have ins2: "insert_into E Users [(''uname'', Val (TextV v)), (''token'', Val (TextV l)), (''admin'', Val (IntV 1))]
      now d1 = (Inr (), d2)" for now
    using insert_user [OF inv1 tb1 len(3,4), of 1 now] free(2) by (simp add: d2_def tb2_def j_def)
  have inv2: "server_inv E sch d2"
    using insert_into_sound [OF inv1 suit_user, of v l 1 0] ins2 [of 0] by simp
  have rows: "[IntV i, TextV u, TextV k, IntV 1] \<in> set (stored d2 Users)"
      "[IntV j, TextV v, TextV l, IntV 1] \<in> set (stored d2 Users)"
    by (simp_all add: d2_def tb2_def tb1_def)
  have reread: "bind_sum (select_from E Users [(Col ''uname'', TextV x)] d2) (\<lambda>R. into_int E R ''user_id'' 0) = Inr n"
    if mem: "[IntV n, TextV x, y, z] \<in> set (stored d2 Users)" for n x y z
  proof -
    have "1 < length (sch Users)" "key_col (sch Users ! 1)"
      using backend_schema by (auto simp: key_col_def plain_def)
    then obtain rs where "select_from E Users [(Col ''uname'', TextV x)] d2 =
        Inr (header_of Users, [IntV n, TextV x, y, z] # rs)"
      using reread_unique [OF inv2 _ _ mem _ _ resolve_users(3)] by auto
    then show ?thesis by (simp add: into_int_def resolve_users soci_int_IntV)
  qed
  note run = session_ok query_def exec_def sel ins1 ins2 reread [OF rows(1)] reread [OF rows(2)] soci_int_IntV
  have "schedule [0, 1, 0, 1, 0, 1, 0, 1]
      (map (db_thread E) [CreateUser_call u k 0, CreateUser_call v l 0]) w =
      ([Done (Inr (Some (i, 1))), Done (Inr (Some (j, 1)))],
       w\<lparr>sessions := Suc (Suc (sessions w)), tabs := d2, ticks := ticks w + 6\<rparr>)"
    using up by (simp add: createUser_thread_def atomic_def run Let_def)
  moreover have dir1: "directory d1 = (directory ?d)(u \<mapsto> (i, k, True))"
    using directory_with_row [OF new(1) tb, of i k 1] by (simp add: d1_def tb1_def)
  then have new1: "directory d1 v = None" using new by simp
  have "directory d2 = (directory ?d)(u \<mapsto> (i, k, True), v \<mapsto> (j, l, True))"
    using directory_with_row [OF new1 tb1, of j l 1] dir1 by (simp add: d2_def tb2_def)
  ultimately show thesis using that by simp
qed

end

section \<open>Properties\<close>

text \<open>Concurrent calls. Registrations, bans and new channels and communities by any number of handlers, interleaved
  statement by statement under any schedule, leave stored data that satisfy all constraints.\<close>

theorem concurrent_calls_keep_invariant:
  assumes dep: "deployment E sch db" and inv: "server_inv E sch (tabs w)"
  shows "server_inv E sch (tabs (snd (schedule is (map (db_thread E) calls) w)))"
  using backend.safe_db_thread [OF deployment_backend [OF dep]] inv
  by (intro schedule_safe [where P = "\<lambda>w. server_inv E sch (tabs w)"]) (simp_all add: list_all_iff)

theorem concurrent_calls_keep_invariant_witness:
  "server_inv pg0 pg_schema (tabs (snd (schedule [0, 1, 1, 0, 0, 1, 1, 0]
     (map (db_thread pg0) [CreateUser_call ''bob'' ''pw'' 0, BanUser_call ''ann'' 3]) ann_world)))"
  by (rule concurrent_calls_keep_invariant [OF pg0_deployment ann_inv])

text \<open>C18 (concurrent first users). A comment says that the first user becomes an administrator, and
  of calls that come one after the other this is true. Two registrations that run at the same time
  can both count no administrator before either inserts its user: then both users are
  administrators, although both asked not to be.\<close>

theorem concurrent_first_users:
  assumes dep: "deployment E sch db" and inv: "server_inv E sch (tabs w)"
    and up: "session_up E (sessions w)" "session_up E (Suc (sessions w))"
    and tb: "tabs w Users = Some tb" and room: "seqno tb + 2 \<le> 2147483647"
    and none: "\<not> has_admin (directory (tabs w))"
    and new: "directory (tabs w) u = None" "directory (tabs w) v = None" "u \<noteq> v"
    and len: "utf8_length u \<le> 50" "utf8_length k \<le> 50" "utf8_length v \<le> 50" "utf8_length l \<le> 50"
  shows "\<exists>is. let (ts, w') = schedule is (map (db_thread E) [CreateUser_call u k 0, CreateUser_call v l 0]) w in
    (\<exists>i j. ts = [Done (Inr (Some (i, 1))), Done (Inr (Some (j, 1)))]) \<and>
    is_admin (directory (tabs w')) u \<and> is_admin (directory (tabs w')) v"
proof -
  obtain i j w' where run: "schedule [0, 1, 0, 1, 0, 1, 0, 1]
      (map (db_thread E) [CreateUser_call u k 0, CreateUser_call v l 0]) w =
      ([Done (Inr (Some (i, 1))), Done (Inr (Some (j, 1)))], w')"
    and dir: "directory (tabs w') = (directory (tabs w))(u \<mapsto> (i, k, True), v \<mapsto> (j, l, True))"
    by (rule backend.both_count_first [OF deployment_backend [OF dep] inv up tb room none new len])
  have "is_admin (directory (tabs w')) u" "is_admin (directory (tabs w')) v"
    using new(3) by (auto simp: dir is_admin_def)
  with run show ?thesis by (intro exI [of _ "[0, 1, 0, 1, 0, 1, 0, 1]"]) simp
qed

theorem concurrent_first_users_witness:
  "\<exists>is. let (ts, w') = schedule is (map (db_thread pg0)
      [CreateUser_call ''ann'' ''pw'' 0, CreateUser_call ''bob'' ''pw'' 0]) pg_start in
    (\<exists>i j. ts = [Done (Inr (Some (i, 1))), Done (Inr (Some (j, 1)))]) \<and>
    is_admin (directory (tabs w')) ''ann'' \<and> is_admin (directory (tabs w')) ''bob''"
  by (rule concurrent_first_users [OF pg0_deployment pg_start_inv _ _ pg_start_users])
     (simp_all add: has_admin_def is_admin_def pg_start_directory utf8_length_def)

end
