(* ===== verification/Listings.thy ===== *)
theory Listings
  imports Messaging
begin

text \<open>
  What the listing handlers return: the communities, and the channels of a community, with the names
  of their administrators.
\<close>

section \<open>Rows joined with their users\<close>

lemma map_filter_cases:
  "concat (map (\<lambda>x. case f x of None \<Rightarrow> [] | Some y \<Rightarrow> [y]) xs) = List.map_filter f xs"
  by (induction xs) (simp_all add: List.map_filter_simps split: option.splits)

lemma mem_map_filter: "y \<in> set (List.map_filter f xs) \<longleftrightarrow> (\<exists>x \<in> set xs. f x = Some y)"
  by (induction xs) (auto simp: List.map_filter_simps split: option.splits)

lemma distinct_map_filter:
  assumes "distinct (map k xs)" and "\<And>x y. x \<in> set xs \<Longrightarrow> f x = Some y \<Longrightarrow> g y = k x"
  shows "distinct (map g (List.map_filter f xs))"
  using assms
proof (induction xs)
  case (Cons x xs)
  have old: "g y \<in> set (map k xs)" if mem: "y \<in> set (List.map_filter f xs)" for y
  proof -
    obtain z where z: "z \<in> set xs" "f z = Some y" using mem by (auto simp: mem_map_filter)
    then have "g y = k z" by (intro Cons.prems(2)) simp_all
    with z(1) show ?thesis by simp
  qed
  have rest: "distinct (map g (List.map_filter f xs))" using Cons by simp
  show ?case
  proof (cases "f x")
    case None
    with rest show ?thesis by (simp add: List.map_filter_simps)
  next
    case (Some y)
    then have "g y = k x" by (intro Cons.prems(2)) simp_all
    with Some rest Cons.prems(1) old show ?thesis by (auto simp: List.map_filter_simps)
  qed
qed (simp add: List.map_filter_simps)

definition joined_users :: "db \<Rightarrow> tabname \<Rightarrow> nat \<Rightarrow> sqlval list list" where
  "joined_users d t c = filter (\<lambda>r. sql_eq (r ! c) (r ! length (pg_schema t)))
     [x @ y. x \<leftarrow> stored d t, y \<leftarrow> stored d Users]"

lemma schema_lengths: "length (pg_schema Communities) = 4" "length (pg_schema Channels) = 5"
  by simp_all

text \<open>The rows behind the two listings.\<close>

definition community_listing :: "db \<Rightarrow> sqlval list list" where
  "community_listing d = joined_users d Communities 2"

definition channel_listing :: "db \<Rightarrow> int \<Rightarrow> sqlval list list" where
  "channel_listing d com = sort_key (\<lambda>r. int_key (r ! 0))
     (filter (row_satisfies [(2, IntV com)]) (joined_users d Channels 3))"

context backend
begin

lemma stored_keys_distinct:
  assumes inv: "server_inv E sch d"
  shows "distinct (map (\<lambda>r. int_key (r ! 0)) (stored d t))" and "r \<in> set (stored d t) \<Longrightarrow> \<exists>i. r ! 0 = IntV i"
proof -
  obtain tb where tb: "cols tb = sch t" "stored d t = rows tb" "table_sound tb" "violation E d tb = None"
    by (rule stored_table [OF inv])
  have key: "\<exists>i. r ! 0 = IntV i" if r: "r \<in> set (stored d t)" for r
  proof -
    have "row_sound tb r" using r tb(2,3) by (simp add: table_sound_def)
    then show ?thesis using first_key(2,3) [of t] tb(1) by (auto simp: row_sound_def)
  qed
  then show "r \<in> set (stored d t) \<Longrightarrow> \<exists>i. r ! 0 = IntV i" by blast
  have "distinct (filter (\<lambda>v. v \<noteq> Null) (map (\<lambda>r. r ! 0) (stored d t)))"
    using tb first_key(1,3) by (auto simp: violation_None_iff unique_ok_def list_all_iff column_values_def)
  moreover have "filter (\<lambda>v. v \<noteq> Null) (map (\<lambda>r. r ! 0) (stored d t)) = map (\<lambda>r. r ! 0) (stored d t)"
    by (force dest: key simp: filter_id_conv)
  ultimately have "distinct (map (\<lambda>r. r ! 0) (stored d t))" by simp
  moreover have "inj_on int_key (set (map (\<lambda>r. r ! 0) (stored d t)))"
  proof (rule inj_onI)
    fix a b assume "a \<in> set (map (\<lambda>r. r ! 0) (stored d t))" "b \<in> set (map (\<lambda>r. r ! 0) (stored d t))"
      and "int_key a = int_key b"
    moreover from this(1,2) obtain i j where "a = IntV i" "b = IntV j" using key by (auto dest!: key)
    ultimately show "a = b" by simp
  qed
  ultimately have "distinct (map int_key (map (\<lambda>r. r ! 0) (stored d t)))" by (subst distinct_map) blast
  then show "distinct (map (\<lambda>r. int_key (r ! 0)) (stored d t))" by (simp add: o_def)
qed

lemma joined_users_conv:
  assumes inv: "server_inv E sch d" and c: "c < length (pg_schema t)"
  shows "joined_users d t c = List.map_filter (\<lambda>x. map_option ((@) x)
    (List.find (\<lambda>y. sql_eq (x ! c) (y ! 0)) (stored d Users))) (stored d t)"
proof -
  let ?K = "length (pg_schema t)"
  have one: "filter (\<lambda>r. sql_eq (r ! c) (r ! ?K)) (map ((@) x) (stored d Users)) =
      (case map_option ((@) x) (List.find (\<lambda>y. sql_eq (x ! c) (y ! 0)) (stored d Users)) of
         None \<Rightarrow> [] | Some y \<Rightarrow> [y])" if x: "x \<in> set (stored d t)" for x
  proof -
    have len: "length x = ?K" using stored_row(1) [OF inv x, of 0] first_key(3) [of t] length_sch [of t] by simp
    have eq: "filter (\<lambda>r. sql_eq (r ! c) (r ! ?K)) (map ((@) x) (stored d Users)) =
        map ((@) x) (filter (\<lambda>y. sql_eq (x ! c) (y ! 0)) (stored d Users))"
      using len c by (simp add: filter_map o_def nth_append)
    show ?thesis
    proof (cases "List.find (\<lambda>y. sql_eq (x ! c) (y ! 0)) (stored d Users)")
      case None
      then have "filter (\<lambda>y. sql_eq (x ! c) (y ! 0)) (stored d Users) = []"
        by (auto simp: find_None_iff filter_empty_conv)
      with None show ?thesis by (simp add: eq)
    next
      case (Some y)
      then have "y \<in> set (stored d Users)" "y ! 0 = x ! c" "x ! c \<noteq> Null"
        by (auto dest: find_SomeD simp: sql_eq_def)
      from key_selects [OF inv this] Some show ?thesis by (simp add: eq)
    qed
  qed
  have "joined_users d t c = concat (map (\<lambda>x. filter (\<lambda>r. sql_eq (r ! c) (r ! ?K)) (map ((@) x) (stored d Users))) (stored d t))"
    by (simp add: joined_users_def filter_concat o_def)
  also have "\<dots> = concat (map (\<lambda>x. case map_option ((@) x) (List.find (\<lambda>y. sql_eq (x ! c) (y ! 0)) (stored d Users)) of
         None \<Rightarrow> [] | Some y \<Rightarrow> [y]) (stored d t))"
    by (intro arg_cong [where f = concat] map_cong one refl)
  finally show ?thesis by (simp only: map_filter_cases)
qed

text \<open>A joined row is identified by the id of its first part.\<close>

lemma joined_users_distinct:
  assumes inv: "server_inv E sch d" and c: "c < length (pg_schema t)"
  shows "distinct (map (\<lambda>r. int_key (r ! 0)) (joined_users d t c))"
  unfolding joined_users_conv [OF assms]
proof (rule distinct_map_filter [OF stored_keys_distinct(1) [OF inv]])
  fix x y assume x: "x \<in> set (stored d t)"
    and "map_option ((@) x) (List.find (\<lambda>y. sql_eq (x ! c) (y ! 0)) (stored d Users)) = Some y"
  moreover have "0 < length x" using stored_row(1) [OF inv x, of 0] first_key(3) [of t] by simp
  ultimately show "int_key (y ! 0) = int_key (x ! 0)" by (auto simp: nth_append)
qed

lemma joined_users_mem:
  assumes inv: "server_inv E sch d" and c: "c < length (pg_schema t)"
  shows "r \<in> set (joined_users d t c) \<longleftrightarrow> (\<exists>x \<in> set (stored d t). \<exists>u i k v.
    [IntV i, TextV u, TextV k, v] \<in> set (stored d Users) \<and> r = x @ [IntV i, TextV u, TextV k, v] \<and> x ! c = IntV i)"
    (is "_ \<longleftrightarrow> ?R")
proof
  assume "r \<in> set (joined_users d t c)"
  then obtain x y where r: "r = x @ y" "x \<in> set (stored d t)" "y \<in> set (stored d Users)"
      "sql_eq (r ! c) (r ! length (pg_schema t))"
    unfolding joined_users_def set_filter mem_Collect_eq join_mem by blast
  moreover have "length x = length (pg_schema t)"
    using stored_row(1) [OF inv r(2), of 0] first_key(3) [of t] length_sch [of t] by simp
  ultimately have xy: "x ! c = y ! 0" using c by (simp add: nth_append sql_eq_def)
  obtain i u k v where "y = [IntV i, TextV u, TextV k, v]" by (rule user_row_shape [OF inv r(3)])
  then show ?R using r(1-3) xy by (intro bexI [OF _ r(2)]) auto
next
  assume ?R
  then obtain x u i k v where r: "x \<in> set (stored d t)" "[IntV i, TextV u, TextV k, v] \<in> set (stored d Users)"
      "r = x @ [IntV i, TextV u, TextV k, v]" "x ! c = IntV i" by blast
  moreover have "length x = length (pg_schema t)"
    using stored_row(1) [OF inv r(1), of 0] first_key(3) [of t] length_sch [of t] by simp
  ultimately show "r \<in> set (joined_users d t c)"
    unfolding joined_users_def set_filter mem_Collect_eq join_mem using c
    by (auto simp: nth_append sql_eq_def)
qed

section \<open>The two queries\<close>

lemma resolve_listings:
  "resolve (header_of Communities @ header_of Users) (QCol Communities ''admin'') = Inr 2"
  "resolve (header_of Communities @ header_of Users) (QCol Users ''user_id'') = Inr 4"
  "resolve (header_of Channels @ header_of Users) (QCol Channels ''admin'') = Inr 3"
  "resolve (header_of Channels @ header_of Users) (QCol Users ''user_id'') = Inr 5"
  "resolve_all (header_of Channels @ header_of Users) [(Col ''community'', x)] = Inr [(2, x)]"
  "resolve (header_of Channels @ header_of Users) (QCol Channels ''channel_id'') = Inr 0"
  by (simp_all add: header_simps resolve_def numeral_eq_Suc)

lemma getCommunityRowset_run:
  assumes inv: "server_inv E sch (tabs w)"
  shows "pg_getCommunityRowset E w = (Inr (header_of Communities @ header_of Users,
    scan E (community_listing (tabs w))), w\<lparr>ticks := Suc (ticks w)\<rparr>)"
proof -
  have "row_satisfies [] = (\<lambda>r. True)" by (rule ext) (simp add: row_satisfies_def)
  then show ?thesis
    using select_join_eq [OF server_inv_installed [OF inv] resolve_listings(1,2), of "[]" "[]"]
    unfolding community_listing_def joined_users_def schema_lengths
    by (simp add: pg_getCommunityRowset_def query_def)
qed

lemma getCommunityChannelsRowset_run:
  assumes inv: "server_inv E sch (tabs w)"
  shows "pg_getCommunityChannelsRowset E com w = (Inr (header_of Channels @ header_of Users,
    channel_listing (tabs w) com), w\<lparr>ticks := Suc (ticks w)\<rparr>)"
proof -
  let ?rs = "filter (row_satisfies [(2, IntV com)]) (joined_users (tabs w) Channels 3)"
  have "inj_on (\<lambda>r. int_key (r ! 0)) (set (joined_users (tabs w) Channels 3))"
    using joined_users_distinct [OF inv, of 3 Channels] by (simp add: distinct_map)
  then have "inj_on (\<lambda>r. int_key (r ! 0)) (set ?rs)" by (rule inj_on_subset) auto
  then have "sort_key (\<lambda>r. int_key (r ! 0)) (scan E ?rs) = channel_listing (tabs w) com"
    unfolding channel_listing_def by (intro sort_key_unique) (simp_all add: scan_mset)
  moreover have "select_join E Channels Users (QCol Channels ''admin'') (QCol Users ''user_id'')
      [(Col ''community'', IntV com)] (tabs w) = Inr (header_of Channels @ header_of Users, scan E ?rs)"
    unfolding joined_users_def schema_lengths
    by (rule select_join_eq [OF server_inv_installed [OF inv] resolve_listings(3-5)])
  ultimately show ?thesis
    by (simp add: pg_getCommunityChannelsRowset_def query_def order_by_def resolve_listings)
qed

lemma community_row_shape:
  assumes inv: "server_inv E sch d" and r: "r \<in> set (stored d Communities)"
  obtains i n x y where "r = [IntV i, TextV n, x, y]"
proof -
  have len: "length r = 4" using stored_row(1) [OF inv r, of 0] by (simp add: community_columns)
  obtain i where i: "r ! 0 = IntV i" using stored_keys_distinct(2) [OF inv r] by blast
  obtain n where n: "r ! 1 = TextV n"
    using stored_row(2,3) [OF inv r, of 1] backend_schema
    by (auto simp: community_columns needs_value_def plain_def elim: well_typed.elims)
  have "r = [r ! 0, r ! 1, r ! 2, r ! 3]"
    using len by (auto simp: list_eq_iff_nth_eq less_Suc_eq numeral_eq_Suc)
  with that i n show thesis by metis
qed

text \<open>What is listed, in terms of the stored entries and the directory of users.\<close>

lemma community_listing_mem:
  assumes inv: "server_inv E sch d"
  shows "r \<in> set (community_listing d) \<longleftrightarrow> (\<exists>i n a f u k v. entry_at d Communities i = Some [TextV n, IntV a, f] \<and>
    [IntV a, TextV u, TextV k, v] \<in> set (stored d Users) \<and>
    r = [IntV i, TextV n, IntV a, f, IntV a, TextV u, TextV k, v])" (is "_ \<longleftrightarrow> ?R")
proof
  assume "r \<in> set (community_listing d)"
  then obtain x u i k v where x: "x \<in> set (stored d Communities)" "[IntV i, TextV u, TextV k, v] \<in> set (stored d Users)"
      "r = x @ [IntV i, TextV u, TextV k, v]" "x ! 2 = IntV i"
    unfolding community_listing_def by (auto simp: joined_users_mem [OF inv])
  moreover obtain j n y z where "x = [IntV j, TextV n, y, z]" by (rule community_row_shape [OF inv x(1)])
  ultimately show ?R by (auto simp: entry_at_Some [OF inv])
next
  assume ?R
  then show "r \<in> set (community_listing d)"
    unfolding community_listing_def
    by (subst joined_users_mem [OF inv]) (force simp: entry_at_Some [OF inv])+
qed

lemma channel_listing_mem:
  assumes inv: "server_inv E sch d"
  shows "r \<in> set (channel_listing d com) \<longleftrightarrow> (\<exists>i n a f u k v. entry_at d Channels i = Some [TextV n, IntV com, IntV a, f] \<and>
    [IntV a, TextV u, TextV k, v] \<in> set (stored d Users) \<and>
    r = [IntV i, TextV n, IntV com, IntV a, f, IntV a, TextV u, TextV k, v])" (is "_ \<longleftrightarrow> ?R")
proof
  assume "r \<in> set (channel_listing d com)"
  then obtain x u i k v where x: "x \<in> set (stored d Channels)" "[IntV i, TextV u, TextV k, v] \<in> set (stored d Users)"
      "r = x @ [IntV i, TextV u, TextV k, v]" "x ! 3 = IntV i" and c: "row_satisfies [(2, IntV com)] r"
    unfolding channel_listing_def by (auto simp: joined_users_mem [OF inv])
  moreover obtain j n y z f where "x = [IntV j, TextV n, y, z, f]" by (rule channel_row_shape [OF inv x(1)])
  ultimately show ?R by (auto simp: entry_at_Some [OF inv] row_satisfies_def sql_eq_def)
next
  assume R: ?R
  then have "r \<in> set (joined_users d Channels 3)"
    by (subst joined_users_mem [OF inv]) (force simp: entry_at_Some [OF inv])+
  with R show "r \<in> set (channel_listing d com)"
    by (auto simp: channel_listing_def row_satisfies_def sql_eq_def)
qed

end

section \<open>The handlers\<close>

lemma lift_bind_sum:
  "bind_io (lift_sum (bind_sum r f)) k = bind_io (lift_sum r) (\<lambda>a. bind_io (lift_sum (f a)) k)"
  by (rule ext) (cases r; simp add: bind_io_def)

text \<open>The shape that the listing handlers share, when every row can be read.\<close>

lemma listing_run:
  assumes up: "session_up E (sessions (world_of s))"
    and q: "m ((world_of s)\<lparr>sessions := Suc (sessions (world_of s))\<rparr>) = (Inr (h, rs), w')"
    and g: "\<And>r. r \<in> set rs \<Longrightarrow> g r = Inr (k r)"
  shows "try_catch (bind_io (on_server (on_db (getSociSession E))) (\<lambda>_.
      bind_io (on_server (on_db m)) (\<lambda>R.
      bind_io (for_rows (snd R) (\<lambda>r. bind_io (lift_sum (g r)) Write)) (\<lambda>_. ret status_ok)))) H (s, []) =
    (Inr status_ok, (s\<lparr>world_of := w'\<rparr>, map k rs))"
proof -
  have "read_all g rs = (Inr (), map k rs)" by (rule read_all_cong) (rule g)
  then show ?thesis
    using q by (simp add: try_catch_def bind_io_def on_server_def on_db_def session_ok [OF up] for_rows_read_all)
qed

definition community_of_row :: "env \<Rightarrow> sqlval list \<Rightarrow> exn + community" where
  "community_of_row E row = bind_sum (row_int E row 0) (\<lambda>i. bind_sum (row_string E row 1) (\<lambda>n.
     bind_sum (row_string E row 5) (\<lambda>u.
     Inr (empty_community\<lparr>com_id := i, com_name := n, com_unameadmin := u\<rparr>))))"

definition channel_of_row :: "env \<Rightarrow> int \<Rightarrow> sqlval list \<Rightarrow> exn + channel" where
  "channel_of_row E com row = bind_sum (row_int E row 0) (\<lambda>i. bind_sum (row_string E row 1) (\<lambda>n.
     bind_sum (row_int E row 2) (\<lambda>a. bind_sum (row_string E row 6) (\<lambda>u.
     Inr (empty_channel\<lparr>ch_id := i, ch_name := n, ch_anonymous := pb_flag E a,
           ch_communityid := com, ch_unameadmin := u\<rparr>)))))"

lemma GetCommunities_conv:
  "GetWrongthinkCommunitiesImpl E db = try_catch (bind_io (on_server (on_db (getSociSession E))) (\<lambda>_.
      bind_io (on_server (on_db (getCommunityRowset db))) (\<lambda>R.
      bind_io (for_rows (snd R) (\<lambda>r. bind_io (lift_sum (community_of_row E r)) Write)) (\<lambda>_. ret status_ok))))
      (ret (Status INTERNAL []))"
proof -
  have "bind_io (lift_sum (Inr x)) k = k x" for x :: community and k :: "community \<Rightarrow> (server \<times> community list, unit) io"
    by (rule ext) (simp add: bind_io_def)
  then show ?thesis
    by (simp only: GetWrongthinkCommunitiesImpl_def community_of_row_def lift_bind_sum)
qed

lemma GetChannels_conv:
  "GetWrongthinkChannelsImpl E db com = try_catch (bind_io (on_server (on_db (getSociSession E))) (\<lambda>_.
      bind_io (on_server (on_db (getCommunityChannelsRowset db com))) (\<lambda>R.
      bind_io (for_rows (snd R) (\<lambda>r. bind_io (lift_sum (channel_of_row E com r)) Write)) (\<lambda>_. ret status_ok))))
      (ret (Status INTERNAL []))"
proof -
  have "bind_io (lift_sum (Inr x)) k = k x" for x :: channel and k :: "channel \<Rightarrow> (server \<times> channel list, unit) io"
    by (rule ext) (simp add: bind_io_def)
  then show ?thesis
    by (simp only: GetWrongthinkChannelsImpl_def channel_of_row_def lift_bind_sum)
qed

section \<open>Properties\<close>

context backend
begin

text \<open>Every listed row can be read.\<close>

lemma channel_of_row_listed:
  "channel_of_row E com [IntV i, TextV n, IntV com, IntV a, f, IntV a, TextV u, k, v] =
    Inr (empty_channel\<lparr>ch_id := i, ch_name := n, ch_anonymous := pb_flag E com,
      ch_communityid := com, ch_unameadmin := u\<rparr>)"
  by (simp add: channel_of_row_def row_int_def row_string_def soci_int_IntV soci_string_TextV numeral_eq_Suc)

lemma community_of_row_listed:
  "community_of_row E [IntV i, TextV n, IntV a, f, IntV a, TextV u, k, v] =
    Inr (empty_community\<lparr>com_id := i, com_name := n, com_unameadmin := u\<rparr>)"
  by (simp add: community_of_row_def row_int_def row_string_def soci_int_IntV soci_string_TextV numeral_eq_Suc)

lemma directory_row:
  assumes "server_inv E sch d" and "[IntV a, TextV u, TextV k, v] \<in> set (stored d Users)"
  shows "directory d u = Some (a, k, v = IntV 1)"
  using assms directory_Some by blast

lemma channel_listing_sorted:
  assumes inv: "server_inv E sch d"
  shows "sorted_wrt (<) (map (\<lambda>r. int_key (r ! 0)) (channel_listing d com))"
proof -
  have "distinct (map (\<lambda>r. int_key (r ! 0)) (filter (row_satisfies [(2, IntV com)]) (joined_users d Channels 3)))"
    using joined_users_distinct [OF inv, of 3 Channels] by (auto simp: distinct_map intro: inj_on_subset)
  then have "distinct (map (\<lambda>r. int_key (r ! 0)) (channel_listing d com))"
    by (simp add: channel_listing_def distinct_map)
  then show ?thesis
    by (simp add: strict_sorted_iff channel_listing_def)
qed

end

text \<open>C16 (channels of a community). \<^verbatim>\<open>GetWrongthinkChannels\<close> answers OK and writes the channels
  stored for the requested community, each once, in the order of their ids, under their stored names
  and their administrators' names. The stored permission \<open>f\<close> is not reported: the handler reads
  the third column, which is the community, into the flag \<^verbatim>\<open>anonymous\<close>;
  \<^verbatim>\<open>allow_anon\<close> is the fifth. Nothing changes.\<close>

theorem GetWrongthinkChannels_lists:
  assumes dep: "deployment E sch db" and inv: "server_inv E sch (tabs (world_of s))"
    and up: "session_up E (sessions (world_of s))"
  shows "\<exists>s' cs. GetWrongthinkChannels E db ctx com (s, []) = (Inr status_ok, (s', cs)) \<and> same_data s' s \<and>
    sorted_wrt (<) (map ch_id cs) \<and>
    set cs = {c. \<exists>i n a f u k adm. entry_at (tabs (world_of s)) Channels i = Some [TextV n, IntV com, IntV a, f] \<and>
      directory (tabs (world_of s)) u = Some (a, k, adm) \<and>
      c = empty_channel\<lparr>ch_id := i, ch_name := n, ch_anonymous := pb_flag E com,
        ch_communityid := com, ch_unameadmin := u\<rparr>}"
proof -
  note b = deployment_backend [OF dep]
  note mem = backend.channel_listing_mem [OF b inv, of _ com]
  let ?w = "(world_of s)\<lparr>sessions := Suc (sessions (world_of s))\<rparr>"
  let ?rs = "channel_listing (tabs (world_of s)) com" and ?k = "\<lambda>r. projr (channel_of_row E com r)"
  have good: "channel_of_row E com r = Inr (?k r)" "ch_id (?k r) = int_key (r ! 0)" if "r \<in> set ?rs" for r
    using that by (auto simp: mem backend.channel_of_row_listed [OF b])
  have "getCommunityChannelsRowset db com ?w = (Inr (header_of Channels @ header_of Users, ?rs),
      ?w\<lparr>ticks := Suc (ticks (world_of s))\<rparr>)"
    using backend.getCommunityChannelsRowset_run [OF b, of ?w com] inv by (simp add: deployment_methods [OF dep])
  then have run: "GetWrongthinkChannels E db ctx com (s, []) = (Inr status_ok,
      (s\<lparr>world_of := ?w\<lparr>ticks := Suc (ticks (world_of s))\<rparr>\<rparr>, map ?k ?rs))"
    using listing_run [where m = "getCommunityChannelsRowset db com" and g = "channel_of_row E com" and k = ?k and rs = ?rs, OF up _ good(1)]
    by (simp only: GetWrongthinkChannels_def GetChannels_conv snd_conv)
  have "map ch_id (map ?k ?rs) = map (\<lambda>r. int_key (r ! 0)) ?rs" by (simp add: good(2))
  then have sorted: "sorted_wrt (<) (map ch_id (map ?k ?rs))"
    by (simp only: backend.channel_listing_sorted [OF b inv])
  have "set (map ?k ?rs) = {c. \<exists>i n a f u k adm. entry_at (tabs (world_of s)) Channels i =
        Some [TextV n, IntV com, IntV a, f] \<and> directory (tabs (world_of s)) u = Some (a, k, adm) \<and>
      c = empty_channel\<lparr>ch_id := i, ch_name := n, ch_anonymous := pb_flag E com,
        ch_communityid := com, ch_unameadmin := u\<rparr>}" (is "_ = ?S")
  proof (intro subset_antisym subsetI)
    fix c assume "c \<in> set (map ?k ?rs)"
    then obtain r where "r \<in> set ?rs" "c = ?k r" by auto
    then show "c \<in> ?S"
      using backend.directory_row [OF b inv] by (auto simp: mem backend.channel_of_row_listed [OF b]) blast
  next
    fix c assume "c \<in> ?S"
    then obtain i n a f u k adm where c: "entry_at (tabs (world_of s)) Channels i = Some [TextV n, IntV com, IntV a, f]"
      "directory (tabs (world_of s)) u = Some (a, k, adm)" "c = empty_channel\<lparr>ch_id := i, ch_name := n,
        ch_anonymous := pb_flag E com, ch_communityid := com, ch_unameadmin := u\<rparr>" by blast
    obtain v where "[IntV a, TextV u, TextV k, v] \<in> set (stored (tabs (world_of s)) Users)"
      using c(2) backend.directory_Some [OF b inv] by blast
    then have "[IntV i, TextV n, IntV com, IntV a, f, IntV a, TextV u, TextV k, v] \<in> set ?rs"
      using c(1) by (simp add: mem)
    then have "?k [IntV i, TextV n, IntV com, IntV a, f, IntV a, TextV u, TextV k, v] \<in> set (map ?k ?rs)"
      by (simp only: set_map image_eqI)
    then show "c \<in> set (map ?k ?rs)" by (simp only: backend.channel_of_row_listed [OF b] sum.sel c(3))
  qed
  with run sorted show ?thesis by (simp add: same_data_def)
qed

theorem GetWrongthinkChannels_lists_witness:
  "\<exists>s' c1 c2. GetWrongthinkChannels pg0 (pg_db pg0) [] 1 (chan_server, []) = (Inr status_ok, (s', [c1, c2]))"
proof -
  have up: "session_up pg0 (sessions (world_of chan_server))" by simp
  obtain s' cs where run: "GetWrongthinkChannels pg0 (pg_db pg0) [] 1 (chan_server, []) = (Inr status_ok, (s', cs))"
    using GetWrongthinkChannels_lists [OF pg0_deployment chan_server_inv up] by blast
  have "length (snd (snd (GetWrongthinkChannels pg0 (pg_db pg0) [] 1 (chan_server, [])))) = 2" by code_simp
  with run show ?thesis by (auto simp: length_Suc_conv numeral_eq_Suc)
qed

text \<open>C17 (communities). \<^verbatim>\<open>GetWrongthinkCommunities\<close> answers OK and writes the stored
  communities, each once, under their stored names and their administrators' names. Nothing
  changes.\<close>

theorem GetWrongthinkCommunities_lists:
  assumes dep: "deployment E sch db" and inv: "server_inv E sch (tabs (world_of s))"
    and up: "session_up E (sessions (world_of s))"
  shows "\<exists>s' cs. GetWrongthinkCommunities E db ctx (s, []) = (Inr status_ok, (s', cs)) \<and> same_data s' s \<and>
    distinct (map com_id cs) \<and>
    set cs = {c. \<exists>i n a f u k adm. entry_at (tabs (world_of s)) Communities i = Some [TextV n, IntV a, f] \<and>
      directory (tabs (world_of s)) u = Some (a, k, adm) \<and>
      c = empty_community\<lparr>com_id := i, com_name := n, com_unameadmin := u\<rparr>}"
proof -
  note b = deployment_backend [OF dep]
  note mem = backend.community_listing_mem [OF b inv]
  let ?w = "(world_of s)\<lparr>sessions := Suc (sessions (world_of s))\<rparr>"
  let ?L = "community_listing (tabs (world_of s))" and ?k = "\<lambda>r. projr (community_of_row E r)"
  let ?rs = "scan E ?L"
  have scan: "mset ?rs = mset ?L" "set ?rs = set ?L"
    using b backend.set_scan [OF b] by (simp_all add: backend_def sql_engine.scan_mset)
  have good: "community_of_row E r = Inr (?k r)" "com_id (?k r) = int_key (r ! 0)" if "r \<in> set ?rs" for r
    using that unfolding scan by (auto simp: mem backend.community_of_row_listed [OF b])
  have "getCommunityRowset db ?w = (Inr (header_of Communities @ header_of Users, ?rs),
      ?w\<lparr>ticks := Suc (ticks (world_of s))\<rparr>)"
    using backend.getCommunityRowset_run [OF b, of ?w] inv by (simp add: deployment_methods [OF dep])
  then have run: "GetWrongthinkCommunities E db ctx (s, []) = (Inr status_ok,
      (s\<lparr>world_of := ?w\<lparr>ticks := Suc (ticks (world_of s))\<rparr>\<rparr>, map ?k ?rs))"
    using listing_run [where m = "getCommunityRowset db" and g = "community_of_row E" and k = ?k and rs = ?rs, OF up _ good(1)]
    by (simp only: GetWrongthinkCommunities_def GetCommunities_conv snd_conv)
  have "distinct (map (\<lambda>r. int_key (r ! 0)) ?L)"
    using backend.joined_users_distinct [OF b inv, of 2 Communities] by (simp add: community_listing_def)
  then have "distinct (map (\<lambda>r. int_key (r ! 0)) ?rs)"
    using scan(1) by (metis mset_eq_imp_distinct_iff mset_map)
  moreover have "map com_id (map ?k ?rs) = map (\<lambda>r. int_key (r ! 0)) ?rs" by (simp add: good(2))
  ultimately have dist: "distinct (map com_id (map ?k ?rs))" by (simp only:)
  have "set (map ?k ?rs) = {c. \<exists>i n a f u k adm. entry_at (tabs (world_of s)) Communities i =
        Some [TextV n, IntV a, f] \<and> directory (tabs (world_of s)) u = Some (a, k, adm) \<and>
      c = empty_community\<lparr>com_id := i, com_name := n, com_unameadmin := u\<rparr>}" (is "_ = ?S")
  proof (intro subset_antisym subsetI)
    fix c assume "c \<in> set (map ?k ?rs)"
    then obtain r where "r \<in> set ?L" "c = ?k r" using scan(2) by auto
    then show "c \<in> ?S"
      using backend.directory_row [OF b inv] by (auto simp: mem backend.community_of_row_listed [OF b]) blast
  next
    fix c assume "c \<in> ?S"
    then obtain i n a f u k adm where c: "entry_at (tabs (world_of s)) Communities i = Some [TextV n, IntV a, f]"
      "directory (tabs (world_of s)) u = Some (a, k, adm)"
      "c = empty_community\<lparr>com_id := i, com_name := n, com_unameadmin := u\<rparr>" by blast
    obtain v where "[IntV a, TextV u, TextV k, v] \<in> set (stored (tabs (world_of s)) Users)"
      using c(2) backend.directory_Some [OF b inv] by blast
    then have "[IntV i, TextV n, IntV a, f, IntV a, TextV u, TextV k, v] \<in> set ?rs"
      using c(1) by (simp add: scan mem)
    then have "?k [IntV i, TextV n, IntV a, f, IntV a, TextV u, TextV k, v] \<in> set (map ?k ?rs)"
      by (simp only: set_map image_eqI)
    then show "c \<in> set (map ?k ?rs)" by (simp only: backend.community_of_row_listed [OF b] sum.sel c(3))
  qed
  with run dist show ?thesis by (simp add: same_data_def)
qed

theorem GetWrongthinkCommunities_lists_witness:
  "\<exists>s' c. GetWrongthinkCommunities pg0 (pg_db pg0) [] (chan_server, []) = (Inr status_ok, (s', [c]))"
proof -
  have up: "session_up pg0 (sessions (world_of chan_server))" by simp
  obtain s' cs where run: "GetWrongthinkCommunities pg0 (pg_db pg0) [] (chan_server, []) = (Inr status_ok, (s', cs))"
    using GetWrongthinkCommunities_lists [OF pg0_deployment chan_server_inv up] by blast
  have "length (snd (snd (GetWrongthinkCommunities pg0 (pg_db pg0) [] (chan_server, [])))) = 1" by code_simp
  with run show ?thesis by (auto simp: length_Suc_conv)
qed

end
