(* ===== verification/Concurrency.thy ===== *)
theory Concurrency
  imports Serving Interleaving Listings
begin

text \<open>
  The service with concurrent handlers. gRPC runs every request in a thread of its own; here a
  request is a thread whose steps are the statements it sends to the database and its accesses to
  \<^verbatim>\<open>channelMap\<close>, each of them atomic. Left alone, a request is the handler of
  \<open>Service\<close>; together they keep the invariant of the service and lose no message.
\<close>

section \<open>Handlers as threads\<close>

text \<open>A thread of the database layer, in the server's state.\<close>

primrec within_db :: "(world, 'a) thread \<Rightarrow> (server, 'a) thread" where
  "within_db (Done r) = Done r"
| "within_db (Step g) = Step (\<lambda>s. case (map_prod id within_db \<circ> g) (world_of s) of
     (w, t) \<Rightarrow> (s\<lparr>world_of := w\<rparr>, t))"

definition BanUser_thread ::
  "env \<Rightarrow> metadata \<Rightarrow> ban_request \<Rightarrow> string \<Rightarrow> (server, status \<times> string) thread" where
  "BanUser_thread E meta request response = attempt
     (if \<not> hasCredentials meta
      then Done (Inr (Status UNAUTHENTICATED ''No credentials attached to the channel'', response))
      else seq (Done (getCredentials meta)) (\<lambda>creds.
           seq (within_db (isUserValid_thread E (fst creds) (snd creds))) (\<lambda>valid.
           if \<not> valid then Done (Inr (Status UNAUTHENTICATED ''Invalid user'', response))
           else seq (within_db (isUserAdmin_thread E (fst creds))) (\<lambda>admin.
             if \<not> admin then Done (Inr (Status UNAUTHENTICATED ''Invalid permission'', response))
             else seq (within_db (banUser_thread E (ban_uname request) (ban_days request))) (\<lambda>_.
               Done (Inr (status_ok, ''test'')))))))
     (Done (Inr (Status INTERNAL [], response)))"

definition GenerateUser_thread ::
  "env \<Rightarrow> exn + byte list \<Rightarrow> exn + byte list \<Rightarrow> user_response \<Rightarrow>
   (server, status \<times> user_response) thread option" where
  "GenerateUser_thread E entropy1 entropy2 response =
     (let failed = Done (Inr (Status INTERNAL [], response)) in
      case fresh_id entropy1 of
        None \<Rightarrow> None
      | Some (Inl e) \<Rightarrow> Some (attempt (Done (Inl e)) failed)
      | Some (Inr id1) \<Rightarrow> (case fresh_id entropy2 of
          None \<Rightarrow> None
        | Some (Inl e) \<Rightarrow> Some (attempt (Done (Inl e)) failed)
        | Some (Inr id2) \<Rightarrow> Some (attempt
            (seq (within_db (createUser_thread E id1 id2 0)) (\<lambda>(uid, admin).
               Done (Inr (status_ok, response\<lparr>u_uname := id1, u_token := id2,
                 u_admin := pb_flag E admin, u_userid := uid\<rparr>))))
            failed)))"

definition CreateUser_thread ::
  "env \<Rightarrow> create_user_request \<Rightarrow> user_response \<Rightarrow> (server, status \<times> user_response) thread" where
  "CreateUser_thread E request response = attempt
     (seq (within_db (createUser_thread E (cu_uname request) (cu_password request) (cu_admin request)))
        (\<lambda>(uid, admin). Done (Inr (status_ok, response\<lparr>u_userid := uid, u_uname := cu_uname request,
           u_admin := pb_flag E admin\<rparr>))))
     (Done (Inr (Status INTERNAL [], response)))"

definition CreateWrongthinkChannel_thread ::
  "env \<Rightarrow> create_channel_request \<Rightarrow> channel \<Rightarrow> (server, status \<times> channel) thread" where
  "CreateWrongthinkChannel_thread E request response = attempt
     (seq (within_db (createChannel_thread E (cc_name request) (cc_communityid request)
                        (cc_adminid request) (cc_anonymous request)))
        (\<lambda>channelid. Done (Inr (status_ok, response\<lparr>ch_id := channelid\<rparr>))))
     (Done (Inr (Status INTERNAL [], response)))"

definition CreateWrongthinkCommunity_thread ::
  "env \<Rightarrow> create_community_request \<Rightarrow> community \<Rightarrow> (server, status \<times> community) thread" where
  "CreateWrongthinkCommunity_thread E request response = attempt
     (seq (within_db (createCommunity_thread E (co_name request) (co_adminid request) (co_public request)))
        (\<lambda>communityid. Done (Inr (status_ok, response\<lparr>com_id := communityid\<rparr>))))
     (Done (Inr (Status INTERNAL [], response)))"

definition checkForChannel_thread :: "env \<Rightarrow> int \<Rightarrow> (server, bool) thread" where
  "checkForChannel_thread E channelid =
     seq (atomic (is_live channelid)) (\<lambda>live.
     if \<not> live
     then seq (atomic (on_db (pg_getChannelRow E channelid))) (\<lambda>r.
          if \<not> (case r of None \<Rightarrow> no_row_null E | Some v \<Rightarrow> v = Null)
          then seq (Done (case r of None \<Rightarrow> no_row_name E | Some v \<Rightarrow> soci_string E v)) (\<lambda>n.
               seq (atomic (emplace channelid n)) (\<lambda>_. Done (Inr True)))
          else Done (Inr False))
     else Done (Inr True))"

definition SendWrongthinkMessageWeb_thread :: "env \<Rightarrow> message \<Rightarrow> (server, status) thread" where
  "SendWrongthinkMessageWeb_thread E msg = attempt
     (seq (atomic (on_db (getSociSession E))) (\<lambda>_.
      seq (checkForChannel_thread E (msg_channelid msg)) (\<lambda>ok.
      if \<not> ok then Done (Inr (Status INVALID_ARGUMENT []))
      else seq (atomic (append_live (msg_channelid msg) msg)) (\<lambda>_.
           seq (atomic (on_db (insert_message E msg))) (\<lambda>_. Done (Inr status_ok))))))
     (Done (Inr (Status INTERNAL [])))"

function send_loop_thread :: "env \<Rightarrow> message reader \<Rightarrow> (server, status) thread" where
  "send_loop_thread E rd = (case Read rd of
      Inl e \<Rightarrow> Done (Inl e)
    | Inr (None, _) \<Rightarrow> Done (Inr status_ok)
    | Inr (Some msg, rd') \<Rightarrow>
        seq (checkForChannel_thread E (msg_channelid msg)) (\<lambda>ok.
        if \<not> ok then Done (Inr (Status INVALID_ARGUMENT []))
        else seq (atomic (append_live (msg_channelid msg) msg)) (\<lambda>_.
             seq (atomic (on_db (insert_message E msg))) (\<lambda>_.
             send_loop_thread E rd'))))"
  by pat_completeness auto
termination
  by (relation "measure (\<lambda>(E, rd). length (objList rd) - pos rd)")
     (auto simp: Read_def split: if_splits)

declare send_loop_thread.simps [simp del]

definition SendWrongthinkMessage_thread :: "env \<Rightarrow> message list \<Rightarrow> (server, status) thread" where
  "SendWrongthinkMessage_thread E msgs = attempt
     (seq (atomic (on_db (getSociSession E))) (\<lambda>_.
      seq (atomic (on_db (prepare_message E))) (\<lambda>_. send_loop_thread E (open_reader msgs))))
     (Done (Inr (Status INTERNAL [])))"

definition ListenWrongthinkMessages_thread :: "env \<Rightarrow> int \<Rightarrow> (server, listen_outcome) thread" where
  "ListenWrongthinkMessages_thread E channelid =
     seq (atomic (on_db (getSociSession E))) (\<lambda>_.
     seq (checkForChannel_thread E channelid) (\<lambda>ok.
     if \<not> ok then Done (Inr (Returned (Status INVALID_ARGUMENT [])))
     else Done (Inr (Listening channelid))))"

text \<open>The three handlers that read: a session, one query \<open>m\<close>, and rows that \<open>g\<close> reads.\<close>

definition reading_thread ::
  "env \<Rightarrow> (world, relation) io \<Rightarrow> (header \<Rightarrow> sqlval list \<Rightarrow> exn + 'o) \<Rightarrow> (server, status \<times> 'o list) thread" where
  "reading_thread E m g = attempt
     (seq (atomic (on_db (getSociSession E))) (\<lambda>_.
      seq (atomic (on_db m)) (\<lambda>R. case read_all (g (fst R)) (snd R) of
          (Inr _, out) \<Rightarrow> Done (Inr (status_ok, out))
        | (Inl e, out) \<Rightarrow> Done (if e = Undefined then Inl Undefined else Inr (Status INTERNAL [], out)))))
     (Done (Inr (Status INTERNAL [], [])))"

definition answering :: "('s, 'a) thread \<Rightarrow> ('a \<Rightarrow> 'b) \<Rightarrow> ('s, 'b) thread" where
  "answering t f = seq t (\<lambda>a. Done (Inr (f a)))"

definition serve_thread :: "env \<Rightarrow> metadata \<Rightarrow> rpc \<Rightarrow> (server, reply) thread option" where
  "serve_thread E ctx r = (case r of
       DeleteMessage_rpc \<Rightarrow> Some (Done (Inr (Generic_reply status_ok [])))
     | BanUser_rpc q \<Rightarrow> Some (answering (BanUser_thread E ctx q []) (\<lambda>(st, x). Generic_reply st x))
     | GenerateUser_rpc e1 e2 \<Rightarrow>
         map_option (\<lambda>t. answering t (\<lambda>(st, x). User_reply st x)) (GenerateUser_thread E e1 e2 empty_user)
     | GetWrongthinkChannels_rpc i \<Rightarrow>
         Some (answering (reading_thread E (pg_getCommunityChannelsRowset E i) (\<lambda>h. channel_of_row E i))
           (\<lambda>(st, x). Channels_reply st x))
     | GetWrongthinkCommunities_rpc \<Rightarrow>
         Some (answering (reading_thread E (pg_getCommunityRowset E) (\<lambda>h. community_of_row E))
           (\<lambda>(st, x). Communities_reply st x))
     | CreateWrongthinkChannel_rpc q \<Rightarrow>
         Some (answering (CreateWrongthinkChannel_thread E q empty_channel) (\<lambda>(st, x). Channel_reply st x))
     | CreateWrongthinkCommunity_rpc q \<Rightarrow>
         Some (answering (CreateWrongthinkCommunity_thread E q empty_community) (\<lambda>(st, x). Community_reply st x))
     | SendWrongthinkMessageWeb_rpc m \<Rightarrow> Some (answering (SendWrongthinkMessageWeb_thread E m) Meta_reply)
     | SendWrongthinkMessage_rpc ms \<Rightarrow> Some (answering (SendWrongthinkMessage_thread E ms) Meta_reply)
     | ListenWrongthinkMessages_rpc i \<Rightarrow> Some (answering (ListenWrongthinkMessages_thread E i) Listen_reply)
     | GetWrongthinkMessages_rpc q \<Rightarrow>
         Some (answering (reading_thread E (pg_getChannelMessages E (gm_channelid q))
             (\<lambda>h. read_message E h (gm_channelid q)))
           (\<lambda>(st, x). Messages_reply st x))
     | CreateUser_rpc q \<Rightarrow> Some (answering (CreateUser_thread E q empty_user) (\<lambda>(st, x). User_reply st x)))"

section \<open>A request that is left alone\<close>

lemma run_within: "run_thread (within_db t) = on_db (run_thread t)"
proof (induction t)
  case (Done r)
  show ?case by (rule ext) (simp add: on_db_def)
next
  case (Step g)
  show ?case
  proof
    fix s :: server
    obtain w t where g: "g (world_of s) = (w, t)" by (rule prod.exhaust)
    then have "run_thread (within_db t) = on_db (run_thread t)"
      by (intro Step.IH [of "g (world_of s)" t, OF rangeI]) simp
    with g show "run_thread (within_db (Step g)) s = on_db (run_thread (Step g)) s"
      by (simp add: on_db_def)
  qed
qed

lemma run_answering: "run_thread (answering t f) = answer (run_thread t) f"
  unfolding answering_def answer_def run_seq run_Done lift_sum_cases ..

lemmas run_simps = run_attempt run_seq run_atomic run_within run_Done if_distrib [of run_thread]
  createUser_thread_run banUser_thread_run reads_thread_run creates_thread_run

lemma run_Done_ret: "run_thread (Done (Inr a)) = ret a" "run_thread (Done (Inl e)) = raise e"
  by (rule ext, simp)+

lemma checkForChannel_thread_run:
  assumes dep: "deployment E sch db"
  shows "run_thread (checkForChannel_thread E i) = checkForChannel E db i"
  unfolding checkForChannel_thread_def checkForChannel_def deployment_methods [OF dep] run_simps lift_sum_cases
  by (rule refl)

lemma send_loop_thread_run:
  assumes dep: "deployment E sch db"
  shows "run_thread (send_loop_thread E rd) = send_loop E db rd"
proof (induction "length (objList rd) - pos rd" arbitrary: rd rule: less_induct)
  case less
  have "run_thread (send_loop_thread E rd') = send_loop E db rd'" if "Read rd = Inr (Some m, rd')" for m rd'
    by (rule less) (use that in \<open>auto simp: Read_def split: if_splits\<close>)
  then show ?case
    by (subst send_loop_thread.simps, subst send_loop.simps)
       (simp add: run_simps checkForChannel_thread_run [OF dep] lift_sum_cases
          cong: if_cong split: sum.splits option.splits prod.splits)
qed

lemma handler_threads_run:
  assumes dep: "deployment E sch db"
  shows "run_thread (BanUser_thread E ctx bq g) = BanUser db ctx bq g"
    and "run_thread (CreateUser_thread E cq u) = CreateUser E db cq u"
    and "run_thread (CreateWrongthinkChannel_thread E ccq c) = CreateWrongthinkChannel db ccq c"
    and "run_thread (CreateWrongthinkCommunity_thread E coq com) = CreateWrongthinkCommunity db coq com"
    and "run_thread (SendWrongthinkMessageWeb_thread E msg) = SendWrongthinkMessageWeb E db msg"
    and "run_thread (SendWrongthinkMessage_thread E msgs) = SendWrongthinkMessage E db ctx msgs"
    and "run_thread (ListenWrongthinkMessages_thread E i) = ListenWrongthinkMessages E db ctx i"
  unfolding BanUser_thread_def BanUser_def CreateUser_thread_def CreateUser_def
    CreateWrongthinkChannel_thread_def CreateWrongthinkChannel_def
    CreateWrongthinkCommunity_thread_def CreateWrongthinkCommunity_def
    SendWrongthinkMessageWeb_thread_def SendWrongthinkMessageWeb_def
    SendWrongthinkMessage_thread_def SendWrongthinkMessage_def SendWrongthinkMessageImpl_def
    ListenWrongthinkMessages_thread_def ListenWrongthinkMessages_def ListenWrongthinkMessagesImpl_def
    deployment_methods [OF dep]
  by (simp_all only: run_simps lift_sum_cases prod.case_distrib [of run_thread]
      checkForChannel_thread_run [OF dep] send_loop_thread_run [OF dep] if_distrib [of lift_sum])

lemma try_catch_raise: "try_catch (raise e) h = (if e = Undefined then raise e else h)"
  by (rule ext) (simp add: try_catch_def)

lemma GenerateUser_thread_run:
  assumes dep: "deployment E sch db"
  shows "map_option run_thread (GenerateUser_thread E e1 e2 u) = GenerateUser E db e1 e2 u"
  unfolding GenerateUser_thread_def GenerateUser_def deployment_methods [OF dep] Let_def
  by (simp add: run_simps lift_sum_cases try_catch_raise prod.case_distrib [of run_thread] split: option.splits sum.splits)

text \<open>The reading handlers, once their loop is \<open>read_all\<close>.\<close>

lemma reading_thread_run:
  "run_thread (reading_thread E m g) = streamed (try_catch
     (bind_io (on_server (on_db (getSociSession E))) (\<lambda>_.
      bind_io (on_server (on_db m)) (\<lambda>R.
      bind_io (for_rows (snd R) (\<lambda>r. bind_io (lift_sum (g (fst R) r)) Write)) (\<lambda>_. ret status_ok))))
     (ret (Status INTERNAL [])))"
proof
  fix s :: server
  obtain r w where ses: "getSociSession E (world_of s) = (r, w)" by (rule prod.exhaust)
  show "run_thread (reading_thread E m g) s = streamed (try_catch
     (bind_io (on_server (on_db (getSociSession E))) (\<lambda>_.
      bind_io (on_server (on_db m)) (\<lambda>R.
      bind_io (for_rows (snd R) (\<lambda>r. bind_io (lift_sum (g (fst R) r)) Write)) (\<lambda>_. ret status_ok))))
     (ret (Status INTERNAL []))) s"
  proof (cases r)
    case (Inl e)
    with ses show ?thesis
      by (simp add: reading_thread_def run_simps try_catch_def bind_io_def streamed_def on_server_def on_db_def)
  next
    case (Inr a)
    obtain q w' where run: "m w = (q, w')" by (rule prod.exhaust)
    show ?thesis
    proof (cases q)
      case (Inl e)
      with ses Inr run show ?thesis
        by (simp add: reading_thread_def run_simps try_catch_def bind_io_def streamed_def on_server_def on_db_def)
    next
      case (Inr R)
      obtain res out where ra: "read_all (g (fst R)) (snd R) = (res, out)" by (rule prod.exhaust)
      with ses \<open>r = Inr a\<close> run Inr show ?thesis
        by (cases res)
           (simp_all add: reading_thread_def run_simps try_catch_def bind_io_def streamed_def on_server_def
             on_db_def for_rows_read_all)
    qed
  qed
qed

lemma request_alone_is_handler_eq:
  assumes dep: "deployment E sch db"
  shows "map_option run_thread (serve_thread E ctx r) = serve E db ctx r"
proof (cases r)
  case (GenerateUser_rpc e1 e2)
  then show ?thesis
    by (simp add: serve_thread_def serve_def run_answering GenerateUser_thread_run [OF dep, symmetric]
        option.map_comp o_def)
next
  case DeleteMessage_rpc
  then show ?thesis
    by (simp add: serve_thread_def serve_def DeleteMessage_def answer_def fun_eq_iff)
qed (simp_all add: serve_thread_def serve_def run_answering handler_threads_run(1-5) [OF dep] handler_threads_run(6,7) [OF dep, where ctx = ctx]
    reading_thread_run GetWrongthinkChannels_def GetChannels_conv
    GetWrongthinkCommunities_def GetCommunities_conv GetWrongthinkMessages_def GetWrongthinkMessagesImpl_def
    deployment_methods [OF dep])



end
