(* ===== verification/Together.thy ===== *)
theory Together
  imports Concurrency
begin

text \<open>
  What concurrent requests guarantee each other: the invariant of the service holds throughout,
  stored data and live channels only grow, and on these grounds each request keeps its promise: a
  registered user can log in, a message that was accepted is in its channel and in the database.
\<close>

section \<open>Growth of the server\<close>

definition live_messages :: "server \<Rightarrow> int \<Rightarrow> message list" where
  "live_messages s i = (case channelMap s i of None \<Rightarrow> [] | Some c \<Rightarrow> getMessages c)"

definition evolves :: "server \<Rightarrow> server \<Rightarrow> bool" where
  "evolves s s' \<longleftrightarrow> grows (tabs (world_of s)) (tabs (world_of s')) \<and>
     (\<forall>i. channelMap s i \<noteq> None \<longrightarrow> channelMap s' i \<noteq> None) \<and>
     (\<forall>i. prefix (live_messages s i) (live_messages s' i))"

interpretation store: rely "\<lambda>w. server_inv E sch (tabs w)" "\<lambda>w w'. grows (tabs w) (tabs w')" for E sch
  by unfold_locales (auto intro: grows_trans)

interpretation service: rely "service_inv E sch" evolves for E sch
proof unfold_locales
  show "evolves s s" for s by (simp add: evolves_def)
  show "evolves s t \<Longrightarrow> evolves t u \<Longrightarrow> evolves s u" for s t u
    unfolding evolves_def by (meson grows_trans prefix_order.trans)
qed

lemma service_inv_db: "service_inv E sch s \<Longrightarrow> server_inv E sch (tabs (world_of s))"
  by (simp add: service_inv_def)

lemma service_inv_world:
  assumes "service_inv E sch s" and "server_inv E sch (tabs w)" and "grows (tabs (world_of s)) (tabs w)"
  shows "service_inv E sch (s\<lparr>world_of := w\<rparr>)" and "evolves s (s\<lparr>world_of := w\<rparr>)"
  using assms by (auto simp: service_inv_def evolves_def live_messages_def intro: channel_ok_grows)

lemma keeps_evolves_on_db:
  "(\<And>D. keeps (\<lambda>w. grows D (tabs w)) m) \<Longrightarrow> keeps (evolves D) (on_db m)"
  by (auto simp: keeps_def on_db_def evolves_def live_messages_def split_beta Let_def)

lemma meets_within:
  assumes "meets (\<lambda>w. server_inv E sch (tabs w)) (\<lambda>w w'. grows (tabs w) (tabs w')) Q t (world_of s)"
  shows "meets (service_inv E sch) evolves (\<lambda>r s. Q r (world_of s)) (within_db t) s"
  using assms
proof (induction t arbitrary: s)
  case (Done r)
  then show ?case by (simp add: service_inv_db evolves_def)
next
  case (Step g)
  show ?case
    unfolding within_db.simps
  proof (rule service.meets_StepI)
    fix s' s'' u assume here: "service_inv E sch s'" "evolves s s'"
      and u: "(case (map_prod id within_db \<circ> g) (world_of s') of (w, t) \<Rightarrow> (s'\<lparr>world_of := w\<rparr>, t)) = (s'', u)"
    obtain w t where g: "g (world_of s') = (w, t)" by (rule prod.exhaust)
    with u have u: "s'' = s'\<lparr>world_of := w\<rparr>" "u = within_db t" by auto
    have grow: "grows (tabs (world_of s)) (tabs (world_of s'))" using here(2) by (simp add: evolves_def)
    note st = store.meets_Step [OF Step.prems service_inv_db [OF here(1)] grow g]
    have "meets (service_inv E sch) evolves (\<lambda>r s. Q r (world_of s)) u s''"
      unfolding u by (rule Step.IH [of "g (world_of s')" t, OF rangeI]) (use g st(3) in simp_all)
    then show "service_inv E sch s'' \<and> evolves s' s'' \<and>
        meets (service_inv E sch) evolves (\<lambda>r s. Q r (world_of s)) u s''"
      using service_inv_world [OF here(1) st(1,2)] u(1) by simp
  qed
qed

lemma harmless_within:
  "store.harmless E sch t \<Longrightarrow> service.harmless E sch (within_db t)"
  using meets_within [where Q = "\<lambda>_ _. True"] service_inv_db by blast

section \<open>The database calls\<close>

lemma keeps_grows_read: "keeps (\<lambda>w. grows D (tabs w)) (query E q)" "keeps (\<lambda>w. grows D (tabs w)) (getSociSession E)"
  by (intro keeps_intros)+

lemma harmless_calls:
  assumes dep: "deployment E sch db"
  shows "store.harmless E sch (isUserValid_thread E u k)"
    and "store.harmless E sch (isUserAdmin_thread E u)"
    and "store.harmless E sch (banUser_thread E u n)"
    and "store.harmless E sch (createUser_thread E u k a)"
    and "store.harmless E sch (createChannel_thread E c com i b)"
    and "store.harmless E sch (createCommunity_thread E c i b)"
proof -
  note b = deployment_backend [OF dep]
  note stm = keeps_query keeps_session backend.keeps_statements [OF b] keeps_if
    keeps_grows_read keeps_grows_statements
  show "store.harmless E sch (isUserValid_thread E u k)"
    "store.harmless E sch (isUserAdmin_thread E u)"
    "store.harmless E sch (banUser_thread E u n)"
    "store.harmless E sch (createUser_thread E u k a)"
    "store.harmless E sch (createChannel_thread E c com i b)"
    "store.harmless E sch (createCommunity_thread E c i b)"
    unfolding isUserValid_thread_def isUserAdmin_thread_def banUser_thread_def createUser_thread_def
      createChannel_thread_def createCommunity_thread_def Let_def
    by (intro store.harmless_intros store.harmless_atomic stm)+
qed

text \<open>A registration that succeeds reports an account that exists from then on.\<close>

definition account :: "string \<Rightarrow> string \<Rightarrow> int \<Rightarrow> world \<Rightarrow> bool" where
  "account u k i w \<longleftrightarrow> (\<exists>a. directory (tabs w) u = Some (i, k, a))"

lemma account_grows: "account u k i w \<Longrightarrow> grows (tabs w) (tabs w') \<Longrightarrow> account u k i w'"
  by (auto simp: account_def grows_directory)

context backend
begin

lemma insert_user_account:
  assumes inv: "server_inv E sch (tabs w)" and len: "utf8_length u \<le> 50" "utf8_length k \<le> 50"
    and a: "a = 0 \<or> a = 1"
    and run: "exec E (insert_into E Users
        [(''uname'', Val (TextV u)), (''token'', Val (TextV k)), (''admin'', Val (IntV a))]) w = (Inr (), w')"
  shows "\<exists>i. account u k i w'"
proof -
  obtain tb where tb: "tabs w Users = Some tb" by (rule stored_table [OF inv])
  let ?i = "next_id tb 0" and ?r = "[IntV (next_id tb 0), TextV u, TextV k, IntV a]"
  have ins: "tabs w' = (tabs w)(Users \<mapsto> with_row tb ?r)" "TextV u \<notin> set (column_values tb 1)"
    using run insert_user [OF inv tb len a] by (auto simp: exec_def split: if_splits)
  then have "directory (tabs w) u = None"
    using tb by (simp add: directory_None stored_def column_values_def)
  from directory_with_row [OF this tb, of ?i k a] show ?thesis
    by (intro exI [of _ ?i]) (simp add: account_def ins(1))
qed

lemma reread_account:
  assumes inv: "server_inv E sch (tabs w)" and acc: "account u k i w"
    and run: "query E (\<lambda>d. bind_sum (select_from E Users [(Col ''uname'', TextV u)] d)
      (\<lambda>R. into_int E R ''user_id'' 0)) w = (Inr n, w')"
  shows "n = i"
proof -
  obtain v where row: "[IntV i, TextV u, TextV k, v] \<in> set (stored (tabs w) Users)"
    using acc directory_Some [OF inv] by (auto simp: account_def)
  have "1 < length (sch Users)" "key_col (sch Users ! 1)"
    using backend_schema by (auto simp: key_col_def plain_def)
  then obtain rs where "select_from E Users [(Col ''uname'', TextV u)] (tabs w) =
      Inr (header_of Users, [IntV i, TextV u, TextV k, v] # rs)"
    using reread_unique [OF inv _ _ row _ _ resolve_users(3)] by auto
  then show ?thesis using run by (simp add: query_def into_int_def resolve_users soci_int_IntV)
qed

end

lemma createUser_meets:
  assumes dep: "deployment E sch db" and inv: "server_inv E sch (tabs w)"
    and len: "utf8_length u \<le> 50" "utf8_length k \<le> 50" and a: "a = 0 \<or> a = 1"
  shows "meets (\<lambda>w. server_inv E sch (tabs w)) (\<lambda>w w'. grows (tabs w) (tabs w'))
    (\<lambda>r w. \<forall>i b. r = Inr (i, b) \<longrightarrow> account u k i w) (createUser_thread E u k a) w"
proof -
  note b = deployment_backend [OF dep]
  let ?I = "\<lambda>w. server_inv E sch (tabs w)" and ?le = "\<lambda>w w'. grows (tabs w) (tabs w')"
  have insert: "meets ?I ?le (\<lambda>r w. r = Inr () \<longrightarrow> (\<exists>i. account u k i w)) (atomic (exec E (insert_into E Users
      [(''uname'', Val (TextV u)), (''token'', Val (TextV k)), (''admin'', Val (IntV x))]))) v"
    if "x = 0 \<or> x = 1" for x v
  proof (rule store.meets_atomic)
    fix v' r v'' assume inv: "server_inv E sch (tabs v')" and run: "exec E (insert_into E Users
      [(''uname'', Val (TextV u)), (''token'', Val (TextV k)), (''admin'', Val (IntV x))]) v' = (r, v'')"
    have "server_inv E sch (tabs v'')"
      using keepsD [OF backend.keeps_insert [OF b backend.suit_user [OF b]] inv] run by (metis snd_conv)
    moreover have "grows (tabs v') (tabs v'')"
      using keepsD [OF keeps_grows_statements(1) [of "tabs v'"] grows_refl] run by (metis snd_conv)
    moreover have "\<exists>i. account u k i v3" if "r = Inr ()" "grows (tabs v'') (tabs v3)" for v3
      using backend.insert_user_account [OF b inv len \<open>x = 0 \<or> x = 1\<close>] run that account_grows by blast
    ultimately show "server_inv E sch (tabs v'') \<and> grows (tabs v') (tabs v'') \<and>
      (\<forall>s3. server_inv E sch (tabs s3) \<longrightarrow> grows (tabs v'') (tabs s3) \<longrightarrow> r = Inr () \<longrightarrow> (\<exists>i. account u k i s3))"
      by blast
  qed
  have reread: "meets ?I ?le (\<lambda>r w. \<forall>i. r = Inr i \<longrightarrow> account u k i w) (atomic (query E (\<lambda>d. bind_sum
      (select_from E Users [(Col ''uname'', TextV u)] d) (\<lambda>R. into_int E R ''user_id'' 0)))) v"
    if acc: "account u k i v" for i v
  proof (rule store.meets_atomic)
    fix v' r v'' assume inv: "server_inv E sch (tabs v')" and le: "grows (tabs v) (tabs v')"
      and run: "query E (\<lambda>d. bind_sum (select_from E Users [(Col ''uname'', TextV u)] d)
        (\<lambda>R. into_int E R ''user_id'' 0)) v' = (r, v'')"
    have now: "account u k i v'" by (rule account_grows [OF acc le])
    have same: "tabs v'' = tabs v'" using run by (auto simp: query_def)
    have "account u k n v3" if "r = Inr n" "grows (tabs v'') (tabs v3)" for n v3
      using backend.reread_account [OF b inv now] run that account_grows [OF now] same by metis
    with inv show "server_inv E sch (tabs v'') \<and> grows (tabs v') (tabs v'') \<and>
      (\<forall>s3. server_inv E sch (tabs s3) \<longrightarrow> grows (tabs v'') (tabs s3) \<longrightarrow> (\<forall>n. r = Inr n \<longrightarrow> account u k n s3))"
      by (simp add: same)
  qed
  have finish: "meets ?I ?le (\<lambda>r w. \<forall>i b. r = Inr (i, b) \<longrightarrow> account u k i w)
      (seq (atomic (query E (\<lambda>d. bind_sum (select_from E Users [(Col ''uname'', TextV u)] d)
        (\<lambda>R. into_int E R ''user_id'' 0)))) (\<lambda>uid. Done (Inr (uid, x)))) v"
    if acc: "\<exists>i. account u k i v" and v: "?I v" for x v
  proof -
    obtain i where "account u k i v" using acc by blast
    from reread [OF this] show ?thesis
      by (rule store.meets_seq) (use v account_grows in \<open>auto intro!: store.meets_Done\<close>)
  qed
  note free = store.harmless_atomic [OF keeps_session keeps_session] store.harmless_atomic [OF keeps_query keeps_query]
    store.harmless_Done
  show ?thesis
    unfolding createUser_thread_def Let_def
    apply (rule store.meets_seq [OF free(1) [rule_format, OF inv] inv], simp)
    apply (rule store.meets_seq [OF free(2) [rule_format]], assumption+, simp)
    apply (rule store.meets_seq [OF free(3) [rule_format]], assumption+, simp)
    apply (rule store.meets_seq [OF insert], use a in simp, assumption, simp, rule finish)
    apply simp_all
    done
qed

section \<open>Messages\<close>

text \<open>What one client has sent, in this order: found in the live channels, and in the database.\<close>

definition sent_live :: "message list \<Rightarrow> server \<Rightarrow> bool" where
  "sent_live xs s \<longleftrightarrow> (\<forall>i. subseq (filter (\<lambda>m. msg_channelid m = i) xs) (live_messages s i))"

definition addressed :: "message \<Rightarrow> bool" where
  "addressed m \<longleftrightarrow> int32 (msg_userid m) \<and> int32 (msg_channelid m)"

definition in_order :: "message list \<Rightarrow> db \<Rightarrow> bool" where
  "in_order xs d \<longleftrightarrow> subseq (map (\<lambda>m. [IntV (msg_userid m), IntV (msg_channelid m), TextV (msg_text m)]) xs)
     (map (\<lambda>r. [r ! 1, r ! 2, r ! 6]) (stored d Messages))"

definition sent_stored :: "message list \<Rightarrow> db \<Rightarrow> bool" where
  "sent_stored xs d \<longleftrightarrow> (list_all addressed xs \<longrightarrow> in_order xs d)"

lemma subseq_prefix: "subseq xs ys \<Longrightarrow> prefix ys zs \<Longrightarrow> subseq xs zs"
  by (meson prefix_imp_subseq subseq_order.trans)

lemma sent_live_evolves: "sent_live xs s \<Longrightarrow> evolves s s' \<Longrightarrow> sent_live xs s'"
  unfolding sent_live_def evolves_def by (meson subseq_prefix)

lemma sent_stored_grows: "sent_stored xs d \<Longrightarrow> grows d d' \<Longrightarrow> sent_stored xs d'"
  unfolding sent_stored_def in_order_def
  by (auto intro!: map_mono_prefix elim!: subseq_prefix simp: grows_def permanent_def)

lemma evolves_db: "evolves s s' \<Longrightarrow> grows (tabs (world_of s)) (tabs (world_of s'))"
  by (simp add: evolves_def)

lemma sent_nothing: "sent_live [] s" "sent_stored [] d"
  by (simp_all add: sent_live_def sent_stored_def in_order_def)

text \<open>The accesses to \<^verbatim>\<open>channelMap\<close>.\<close>

lemma append_live_step:
  assumes s: "service_inv E sch s" and live: "channelMap s (msg_channelid m) \<noteq> None"
    and run: "append_live (msg_channelid m) m s = (r, s')"
  shows "service_inv E sch s'" and "evolves s s'" and "sent_live xs s \<Longrightarrow> sent_live (xs @ [m]) s'"
proof -
  obtain c where c: "channelMap s (msg_channelid m) = Some c" using live by auto
  have s': "s' = s\<lparr>channelMap := (channelMap s)(msg_channelid m \<mapsto> appendMessage m c)\<rparr>"
    using run c by (simp add: append_live_def)
  have "channel_ok (tabs (world_of s)) (msg_channelid m) c" using s c by (simp add: service_inv_def)
  then show "service_inv E sch s'" using s channel_ok_append by (auto simp: s' service_inv_def)
  have msgs: "live_messages s' i = live_messages s i @ (if msg_channelid m = i then [m] else [])" for i
    using c by (auto simp: s' live_messages_def appendMessage_def getMessages_def)
  show "evolves s s'" unfolding evolves_def msgs by (auto simp: s')
  show "sent_live xs s \<Longrightarrow> sent_live (xs @ [m]) s'"
    unfolding sent_live_def msgs by (auto intro: list_emb_append_mono)
qed

lemma emplace_step:
  assumes s: "service_inv E sch s" and n: "channel_name (tabs (world_of s)) i = Some n"
    and run: "emplace i n s = (r, s')"
  shows "service_inv E sch s'" and "evolves s s'" and "channelMap s' i \<noteq> None"
proof -
  have s': "s' = s\<lparr>channelMap := (if channelMap s i = None
      then (channelMap s)(i \<mapsto> SynchronizedChannel_named i n) else channelMap s)\<rparr>"
    using run by (simp add: emplace_def)
  then show "channelMap s' i \<noteq> None" by auto
  show "service_inv E sch s'"
    using s channel_ok_new [OF n] by (auto simp: s' service_inv_def)
  have "prefix (live_messages s j) (live_messages s' j)" for j
    by (auto simp: s' live_messages_def SynchronizedChannel_named_def getMessages_def split: option.splits)
  then show "evolves s s'" unfolding evolves_def by (auto simp: s')
qed

lemma live_later: "channelMap s i = Some c \<Longrightarrow> evolves s s' \<Longrightarrow> \<exists>c'. channelMap s' i = Some c'"
  by (auto simp: evolves_def)

lemma checkForChannel_meets:
  assumes dep: "deployment E sch db" and null: "no_row_null E" and s: "service_inv E sch s"
  shows "meets (service_inv E sch) evolves (\<lambda>r s. r = Inr True \<longrightarrow> channelMap s i \<noteq> None)
    (checkForChannel_thread E i) s"
proof -
  note b = deployment_backend [OF dep]
  let ?meets = "meets (service_inv E sch) evolves" and ?live = "\<lambda>s. channelMap s i \<noteq> None"
  have live: "?live s' \<Longrightarrow> evolves s' s'' \<Longrightarrow> ?live s''" for s' s'' by (auto simp: evolves_def)
  have 1: "?meets (\<lambda>r s. r = Inr True \<longrightarrow> ?live s) (atomic (is_live i)) s"
  proof (rule service.meets_atomic)
    fix t r t' assume t: "service_inv E sch t" and "is_live i t = (r, t')"
    then have eq: "t' = t" "r = Inr (?live t)" by (auto simp: is_live_def)
    show "service_inv E sch t' \<and> evolves t t' \<and>
        (\<forall>u. service_inv E sch u \<longrightarrow> evolves t' u \<longrightarrow> r = Inr True \<longrightarrow> ?live u)"
      unfolding eq using t live [of t] by (simp add: service.le_refl del: not_None_eq)
  qed
  have 2: "?meets (\<lambda>r s. \<forall>v. r = Inr (Some v) \<longrightarrow> (\<exists>n. v = TextV n \<and> channel_name (tabs (world_of s)) i = Some n))
      (atomic (on_db (pg_getChannelRow E i))) s'" for s'
  proof (rule service.meets_atomic)
    fix t r t' assume t: "service_inv E sch t" and run: "on_db (pg_getChannelRow E i) t = (r, t')"
    have r: "r = Inr (map_option TextV (channel_name (tabs (world_of t)) i))" "t' = t\<lparr>world_of := (world_of t)\<lparr>ticks := Suc (ticks (world_of t))\<rparr>\<rparr>"
      using backend.getChannelRow_run [OF b service_inv_db [OF t], of i] run by (auto simp: on_db_def)
    have le: "service_inv E sch t'" "evolves t t'"
      unfolding r(2) by (rule service_inv_world [OF t]; simp add: service_inv_db [OF t])+
    have "\<exists>n. v = TextV n \<and> channel_name (tabs (world_of u)) i = Some n"
      if mem: "r = Inr (Some v)" and u: "evolves t' u" for v u
    proof -
      obtain n where n: "v = TextV n" "channel_name (tabs (world_of t)) i = Some n" using mem r(1) by auto
      from grows_channel_name [OF _ n(2)] u have "channel_name (tabs (world_of u)) i = Some n"
        by (simp add: evolves_def r(2))
      with n show ?thesis by blast
    qed
    with le show "service_inv E sch t' \<and> evolves t t' \<and> (\<forall>u. service_inv E sch u \<longrightarrow> evolves t' u \<longrightarrow>
        (\<forall>v. r = Inr (Some v) \<longrightarrow> (\<exists>n. v = TextV n \<and> channel_name (tabs (world_of u)) i = Some n)))"
      by blast
  qed
  have 3: "?meets (\<lambda>r s. r = Inr True \<longrightarrow> ?live s) (seq (atomic (emplace i n)) (\<lambda>_. Done (Inr True))) s'"
    if n: "channel_name (tabs (world_of s')) i = Some n" and s': "service_inv E sch s'" for n s'
  proof (rule service.meets_seq [where Q' = "\<lambda>_. ?live", OF service.meets_atomic s'])
    fix t r t' assume t: "service_inv E sch t" "evolves s' t" and run: "emplace i n t = (r, t')"
    have "channel_name (tabs (world_of t)) i = Some n"
      using grows_channel_name [OF evolves_db [OF t(2)] n] .
    from emplace_step [OF t(1) this run] live show "service_inv E sch t' \<and> evolves t t' \<and>
        (\<forall>u. service_inv E sch u \<longrightarrow> evolves t' u \<longrightarrow> ?live u)" by blast
  qed (auto dest: live_later)
  show ?thesis
    unfolding checkForChannel_thread_def
  proof (rule service.meets_seq [OF 1 s], simp)
    fix l t assume t: "service_inv E sch t" and l: "Inr l = Inr True \<longrightarrow> ?live t"
    show "?meets (\<lambda>r s. r = Inr True \<longrightarrow> ?live s)
      (if \<not> l
     then seq (atomic (on_db (pg_getChannelRow E i))) (\<lambda>r.
          if \<not> (case r of None \<Rightarrow> no_row_null E | Some v \<Rightarrow> v = Null)
          then seq (Done (case r of None \<Rightarrow> no_row_name E | Some v \<Rightarrow> soci_string E v)) (\<lambda>n.
               seq (atomic (emplace i n)) (\<lambda>_. Done (Inr True)))
          else Done (Inr False))
     else Done (Inr True)) t"
    proof (cases l)
      case True
      with l show ?thesis by (auto dest: live_later)
    next
      case False
      have "?meets (\<lambda>r s. r = Inr True \<longrightarrow> ?live s)
          (if \<not> (case r of None \<Rightarrow> no_row_null E | Some v \<Rightarrow> v = Null)
          then seq (Done (case r of None \<Rightarrow> no_row_name E | Some v \<Rightarrow> soci_string E v)) (\<lambda>n.
               seq (atomic (emplace i n)) (\<lambda>_. Done (Inr True)))
          else Done (Inr False)) u"
        if r: "\<forall>v. Inr r = Inr (Some v) \<longrightarrow> (\<exists>n. v = TextV n \<and> channel_name (tabs (world_of u)) i = Some n)"
          and u: "service_inv E sch u" for r u
        using r u null 3 b by (cases r) (auto simp: backend_def sql_engine.soci_string_TextV)
      with False show ?thesis
        by (auto intro!: service.meets_seq [OF 2 t])
    qed
  qed
qed

text \<open>One round of sending, in either handler.\<close>

definition accepted :: "message list \<Rightarrow> exn + status \<Rightarrow> server \<Rightarrow> bool" where
  "accepted xs r s \<longleftrightarrow> (r = Inr status_ok \<longrightarrow> sent_live xs s \<and> sent_stored xs (tabs (world_of s)))"

lemma insert_stored:
  assumes dep: "deployment E sch db" and inv: "server_inv E sch (tabs w)"
    and run: "insert_message E m w = (Inr x, w')" and xs: "sent_stored xs (tabs w)"
  shows "sent_stored (xs @ [m]) (tabs w')"
proof -
  note b = deployment_backend [OF dep]
  obtain now d' where ins: "insert_into E Messages
     [(''user_id'', Val (IntV (msg_userid m))), (''channel'', Val (IntV (msg_channelid m))),
      (''thread_id'', Val (IntV (msg_threadid m))), (''thread_child'', Val (IntV (msg_threadchild m))),
      (''mtext'', Val (TextV (msg_text m)))] now (tabs w) = (Inr (), d')" and d': "tabs w' = d'"
    using run by (auto simp: insert_message_def exec_def split_beta Let_def prod_eq_iff)
  obtain tb r where r: "tabs w Messages = Some tb" "d' = (tabs w)(Messages \<mapsto> with_row tb r)" "r ! 6 = TextV (msg_text m)"
      "coerce E IntT (IntV (msg_userid m)) = Some (r ! 1)" "coerce E IntT (IntV (msg_channelid m)) = Some (r ! 2)"
    by (rule backend.insert_message_Inr [OF b inv ins])
  have "coerce E IntT (IntV n) = Some (IntV n)" if "int32 n" for n
    using that b by (simp add: backend_def sql_engine.coerce_int)
  then have "addressed m \<Longrightarrow> r ! 1 = IntV (msg_userid m) \<and> r ! 2 = IntV (msg_channelid m)"
    using r by (auto simp: addressed_def)
  moreover have "stored (tabs w') Messages = stored (tabs w) Messages @ [r]"
    using r(1,2) d' by (simp add: stored_def)
  ultimately show ?thesis
    using xs r(3) by (auto simp: sent_stored_def in_order_def list_emb_append_mono)
qed

lemma insert_message_meets:
  assumes dep: "deployment E sch db" and xs: "sent_stored xs (tabs (world_of s))"
  shows "meets (service_inv E sch) evolves (\<lambda>r s. \<forall>x. r = Inr x \<longrightarrow> sent_stored (xs @ [m]) (tabs (world_of s)))
    (atomic (on_db (insert_message E m))) s"
proof (rule service.meets_atomic)
  fix t r t' assume t: "service_inv E sch t" "evolves s t" and run: "on_db (insert_message E m) t = (r, t')"
  have "service_inv E sch t'" "evolves t t'"
    using keepsD [OF keeps_service_methods(12) [OF dep] t(1), of m] run
      keepsD [OF keeps_evolves_on_db [OF keeps_grows_insert_message [of _ E m]] service.le_refl, of t]
    by (metis snd_conv)+
  moreover have "sent_stored (xs @ [m]) (tabs (world_of u))" if x: "r = Inr x" "evolves t' u" for x u
  proof -
    have "sent_stored xs (tabs (world_of t))" by (rule sent_stored_grows [OF xs evolves_db [OF t(2)]])
    moreover obtain w where "insert_message E m (world_of t) = (Inr x, w)" "t' = t\<lparr>world_of := w\<rparr>"
      using run x(1) by (auto simp: on_db_def split_beta Let_def prod_eq_iff)
    ultimately have "sent_stored (xs @ [m]) (tabs (world_of t'))"
      using insert_stored [OF dep service_inv_db [OF t(1)]] by simp
    then show ?thesis using evolves_db [OF x(2)] by (rule sent_stored_grows)
  qed
  ultimately show "service_inv E sch t' \<and> evolves t t' \<and> (\<forall>u. service_inv E sch u \<longrightarrow> evolves t' u \<longrightarrow>
      (\<forall>x. r = Inr x \<longrightarrow> sent_stored (xs @ [m]) (tabs (world_of u))))" by blast
qed

lemma round_meets:
  assumes dep: "deployment E sch db" and null: "no_row_null E" and s: "service_inv E sch s"
    and xs: "sent_live xs s" "sent_stored xs (tabs (world_of s))"
    and k: "\<And>t. service_inv E sch t \<Longrightarrow> sent_live (xs @ [m]) t \<Longrightarrow> sent_stored (xs @ [m]) (tabs (world_of t)) \<Longrightarrow>
      meets (service_inv E sch) evolves (accepted ys) k t"
  shows "meets (service_inv E sch) evolves (accepted ys)
    (seq (checkForChannel_thread E (msg_channelid m)) (\<lambda>ok.
      if \<not> ok then Done (Inr (Status INVALID_ARGUMENT []))
      else seq (atomic (append_live (msg_channelid m) m)) (\<lambda>_.
           seq (atomic (on_db (insert_message E m))) (\<lambda>_. k)))) s"
proof (rule service.meets_seq [OF checkForChannel_meets [OF dep null s] s])
  fix ok t assume t: "service_inv E sch t" "evolves s t"
    and ok: "Inr ok = Inr True \<longrightarrow> channelMap t (msg_channelid m) \<noteq> None"
  have append: "meets (service_inv E sch) evolves (\<lambda>_. sent_live (xs @ [m]))
      (atomic (append_live (msg_channelid m) m)) t" if live: "channelMap t (msg_channelid m) \<noteq> None"
  proof (rule service.meets_atomic)
    fix u r u' assume u: "service_inv E sch u" "evolves t u" and run: "append_live (msg_channelid m) m u = (r, u')"
    have "channelMap u (msg_channelid m) \<noteq> None" using live u(2) by (simp add: evolves_def)
    moreover have "sent_live xs u"
      by (rule sent_live_evolves [OF xs(1) service.le_trans [OF t(2) u(2)]])
    ultimately show "service_inv E sch u' \<and> evolves u u' \<and>
        (\<forall>v. service_inv E sch v \<longrightarrow> evolves u' v \<longrightarrow> sent_live (xs @ [m]) v)"
      using append_live_step [OF u(1) _ run] sent_live_evolves by blast
  qed
  have insert: "meets (service_inv E sch) evolves (accepted ys) (seq (atomic (on_db (insert_message E m))) (\<lambda>_. k)) u"
    if u: "service_inv E sch u" "evolves t u" "sent_live (xs @ [m]) u" for u
  proof (rule service.meets_seq [OF insert_message_meets [OF dep] u(1)])
    show "sent_stored xs (tabs (world_of u))"
      using sent_stored_grows [OF xs(2)] evolves_db [OF t(2)] evolves_db [OF u(2)] grows_trans by blast
  qed (use u(3) sent_live_evolves k in \<open>auto simp: accepted_def\<close>)
  show "meets (service_inv E sch) evolves (accepted ys) (if \<not> ok then Done (Inr (Status INVALID_ARGUMENT []))
      else seq (atomic (append_live (msg_channelid m) m)) (\<lambda>_.
           seq (atomic (on_db (insert_message E m))) (\<lambda>_. k))) t"
  proof (cases ok)
    case True
    then show ?thesis
      using ok by (auto intro!: service.meets_seq [OF append t(1)] insert simp: accepted_def)
  qed (simp add: accepted_def)
qed (simp add: accepted_def)

section \<open>Requests\<close>

lemma free_db:
  assumes dep: "deployment E sch db"
  shows "service.harmless E sch (atomic (on_db (getSociSession E)))"
    and "service.harmless E sch (atomic (on_db (prepare_message E)))"
    and "service.harmless E sch (atomic (on_db (pg_getCommunityRowset E)))"
    and "service.harmless E sch (atomic (on_db (pg_getCommunityChannelsRowset E c)))"
    and "service.harmless E sch (atomic (on_db (pg_getChannelMessages E c)))"
proof -
  note le = keeps_evolves_on_db [OF keeps_session] keeps_evolves_on_db [OF keeps_prepare]
    keeps_evolves_on_db [OF keeps_grows_methods(10) [OF dep, unfolded deployment_methods [OF dep]]]
    keeps_evolves_on_db [OF keeps_grows_methods(11) [OF dep, unfolded deployment_methods [OF dep]]]
    keeps_evolves_on_db [OF keeps_grows_methods(12) [OF dep, unfolded deployment_methods [OF dep]]]
  note I = keeps_service_methods(10,11,7,8,9) [OF dep, unfolded deployment_methods [OF dep]]
  show "service.harmless E sch (atomic (on_db (getSociSession E)))"
    "service.harmless E sch (atomic (on_db (prepare_message E)))"
    "service.harmless E sch (atomic (on_db (pg_getCommunityRowset E)))"
    "service.harmless E sch (atomic (on_db (pg_getCommunityChannelsRowset E c)))"
    "service.harmless E sch (atomic (on_db (pg_getChannelMessages E c)))"
    by (rule service.harmless_atomic, rule I, rule le)+
qed

lemma harmless_reading:
  assumes dep: "deployment E sch db" and m: "service.harmless E sch (atomic (on_db m))"
  shows "service.harmless E sch (reading_thread E m g)"
  unfolding reading_thread_def by (intro service.harmless_intros free_db [OF dep] m)

lemma harmless_check:
  assumes dep: "deployment E sch db" and null: "no_row_null E"
  shows "service.harmless E sch (checkForChannel_thread E i)"
proof (intro allI impI)
  fix s assume "service_inv E sch s"
  from checkForChannel_meets [OF dep null this]
  show "meets (service_inv E sch) evolves (\<lambda>_ _. True) (checkForChannel_thread E i) s"
    by (rule service.meets_cons) simp
qed

lemma harmless_handlers:
  assumes dep: "deployment E sch db" and null: "no_row_null E"
  shows "service.harmless E sch (BanUser_thread E ctx bq g)"
    and "service.harmless E sch (CreateWrongthinkChannel_thread E ccq c)"
    and "service.harmless E sch (CreateWrongthinkCommunity_thread E coq com)"
    and "service.harmless E sch (ListenWrongthinkMessages_thread E i)"
  unfolding BanUser_thread_def CreateWrongthinkChannel_thread_def CreateWrongthinkCommunity_thread_def
    ListenWrongthinkMessages_thread_def
  by (intro service.harmless_intros harmless_within harmless_calls [OF dep] free_db [OF dep] harmless_check [OF dep null])+

lemma SendWeb_meets:
  assumes dep: "deployment E sch db" and null: "no_row_null E" and s: "service_inv E sch s"
  shows "meets (service_inv E sch) evolves (accepted [m]) (SendWrongthinkMessageWeb_thread E m) s"
  unfolding SendWrongthinkMessageWeb_thread_def
proof (rule service.meets_attempt [OF _ s])
  show "meets (service_inv E sch) evolves (accepted [m]) (seq (atomic (on_db (getSociSession E))) (\<lambda>_.
      seq (checkForChannel_thread E (msg_channelid m)) (\<lambda>ok.
      if \<not> ok then Done (Inr (Status INVALID_ARGUMENT []))
      else seq (atomic (append_live (msg_channelid m) m)) (\<lambda>_.
           seq (atomic (on_db (insert_message E m))) (\<lambda>_. Done (Inr status_ok)))))) s"
  proof (rule service.meets_seq [OF free_db(1) [OF dep, rule_format, OF s] s])
    fix t assume t: "service_inv E sch t"
    show "meets (service_inv E sch) evolves (accepted [m])
      (seq (checkForChannel_thread E (msg_channelid m)) (\<lambda>ok.
      if \<not> ok then Done (Inr (Status INVALID_ARGUMENT []))
      else seq (atomic (append_live (msg_channelid m) m)) (\<lambda>_.
           seq (atomic (on_db (insert_message E m))) (\<lambda>_. Done (Inr status_ok))))) t"
      by (rule round_meets [OF dep null t sent_nothing])
         (auto simp: accepted_def intro: sent_live_evolves sent_stored_grows [OF _ evolves_db])
  qed (simp add: accepted_def)
qed (auto simp: accepted_def)

lemma send_loop_meets:
  assumes dep: "deployment E sch db" and null: "no_row_null E" and s: "service_inv E sch s"
    and pos: "pos rd \<le> length (objList rd)" and live: "sent_live (take (pos rd) (objList rd)) s"
    and kept: "sent_stored (take (pos rd) (objList rd)) (tabs (world_of s))"
  shows "meets (service_inv E sch) evolves (accepted (objList rd)) (send_loop_thread E rd) s"
  using s pos live kept
proof (induction "length (objList rd) - pos rd" arbitrary: rd s rule: less_induct)
  case less
  show ?case
  proof (cases "pos rd = length (objList rd)")
    case True
    then have "send_loop_thread E rd = Done (Inr status_ok)"
      by (subst send_loop_thread.simps) (simp add: Read_def)
    then show ?thesis
      using less.prems True
      by (auto simp: accepted_def intro: sent_live_evolves sent_stored_grows [OF _ evolves_db])
  next
    case False
    let ?m = "objList rd ! pos rd" and ?rd = "rd\<lparr>pos := Suc (pos rd)\<rparr>"
    have lt: "pos rd < length (objList rd)" using False less.prems(2) by simp
    have "meets (service_inv E sch) evolves (accepted (objList rd)) (send_loop_thread E ?rd) t"
      if "service_inv E sch t" "sent_live (take (pos rd) (objList rd) @ [?m]) t"
        "sent_stored (take (pos rd) (objList rd) @ [?m]) (tabs (world_of t))" for t
      using less.hyps [of ?rd t] that lt by (simp add: take_Suc_conv_app_nth)
    from round_meets [OF dep null less.prems(1,3,4) this] False lt show ?thesis
      by (subst send_loop_thread.simps) (simp add: Read_def)
  qed
qed

lemma SendMessage_meets:
  assumes dep: "deployment E sch db" and null: "no_row_null E" and s: "service_inv E sch s"
  shows "meets (service_inv E sch) evolves (accepted ms) (SendWrongthinkMessage_thread E ms) s"
  unfolding SendWrongthinkMessage_thread_def
proof (rule service.meets_attempt [OF _ s])
  show "meets (service_inv E sch) evolves (accepted ms) (seq (atomic (on_db (getSociSession E))) (\<lambda>_.
      seq (atomic (on_db (prepare_message E))) (\<lambda>_. send_loop_thread E (open_reader ms)))) s"
  proof (rule service.meets_seq [OF free_db(1) [OF dep, rule_format, OF s] s])
    fix t assume t: "service_inv E sch t"
    show "meets (service_inv E sch) evolves (accepted ms)
      (seq (atomic (on_db (prepare_message E))) (\<lambda>_. send_loop_thread E (open_reader ms))) t"
    proof (rule service.meets_seq [OF free_db(2) [OF dep, rule_format, OF t] t])
      fix u assume u: "service_inv E sch u"
      show "meets (service_inv E sch) evolves (accepted ms) (send_loop_thread E (open_reader ms)) u"
        using send_loop_meets [OF dep null u, of "open_reader ms"] by (simp add: open_reader_def sent_nothing)
    qed (simp add: accepted_def)
  qed (simp add: accepted_def)
qed (auto simp: accepted_def)

text \<open>What a request promises with its answer, whatever else runs at the same time.\<close>

definition account_ok :: "create_user_request \<Rightarrow> bool" where
  "account_ok q \<longleftrightarrow> utf8_length (cu_uname q) \<le> 50 \<and> utf8_length (cu_password q) \<le> 50 \<and>
     (cu_admin q = 0 \<or> cu_admin q = 1)"

fun promised :: "rpc \<Rightarrow> exn + reply \<Rightarrow> server \<Rightarrow> bool" where
  "promised (CreateUser_rpc q) res s = (account_ok q \<longrightarrow> (\<forall>u. res = Inr (User_reply status_ok u) \<longrightarrow>
     account (cu_uname q) (cu_password q) (u_userid u) (world_of s)))"
| "promised (GenerateUser_rpc e1 e2) res s = (entropy_ok e1 \<and> entropy_ok e2 \<longrightarrow>
     (\<forall>u. res = Inr (User_reply status_ok u) \<longrightarrow> account (u_uname u) (u_token u) (u_userid u) (world_of s)))"
| "promised (SendWrongthinkMessageWeb_rpc m) res s = (res = Inr (Meta_reply status_ok) \<longrightarrow>
     sent_live [m] s \<and> sent_stored [m] (tabs (world_of s)))"
| "promised (SendWrongthinkMessage_rpc ms) res s = (res = Inr (Meta_reply status_ok) \<longrightarrow>
     sent_live ms s \<and> sent_stored ms (tabs (world_of s)))"
| "promised _ res s = True"

text \<open>What has been promised with a result stays true.\<close>

lemma promised_later: "promised r res s \<Longrightarrow> evolves s s' \<Longrightarrow> promised r res s'"
  by (cases r)
     (auto dest: sent_live_evolves sent_stored_grows [OF _ evolves_db] account_grows [OF _ evolves_db])

lemma meets_answering:
  assumes "meets (service_inv E sch) evolves Q t s" and "service_inv E sch s"
    and "\<And>e s'. Q (Inl e) s' \<Longrightarrow> P (Inl e) s'"
    and "\<And>a s'. Q (Inr a) s' \<Longrightarrow> service_inv E sch s' \<Longrightarrow> meets (service_inv E sch) evolves P (Done (Inr (f a))) s'"
  shows "meets (service_inv E sch) evolves P (answering t f) s"
  unfolding answering_def using assms by (intro service.meets_seq [OF assms(1,2)]) simp_all

lemma harmless_answering: "service.harmless E sch t \<Longrightarrow> service.harmless E sch (answering t f)"
  unfolding answering_def by (intro service.harmless_intros)

lemma register_meets:
  assumes dep: "deployment E sch db" and s: "service_inv E sch s"
    and f: "\<And>i b. u_userid (f i b) = i \<and> P (f i b)"
  shows "meets (service_inv E sch) evolves (\<lambda>r s. utf8_length n \<le> 50 \<and> utf8_length k \<le> 50 \<and> (a = 0 \<or> a = 1) \<longrightarrow>
      (\<forall>u. r = Inr (status_ok, u) \<longrightarrow> P u \<and> account n k (u_userid u) (world_of s)))
    (attempt (seq (within_db (createUser_thread E n k a)) (\<lambda>(uid, admin). Done (Inr (status_ok, f uid admin))))
      (Done (Inr (Status INTERNAL [], response)))) s"
    (is "meets _ _ ?Q ?t s")
proof (cases "utf8_length n \<le> 50 \<and> utf8_length k \<le> 50 \<and> (a = 0 \<or> a = 1)")
  case True
  have reg: "meets (service_inv E sch) evolves (\<lambda>r s. \<forall>i b. r = Inr (i, b) \<longrightarrow> account n k i (world_of s))
      (within_db (createUser_thread E n k a)) s"
    by (rule meets_within [OF createUser_meets [OF dep service_inv_db [OF s]]]) (use True in simp_all)
  have "meets (service_inv E sch) evolves ?Q
      (seq (within_db (createUser_thread E n k a)) (\<lambda>(uid, admin). Done (Inr (status_ok, f uid admin)))) s"
    by (rule service.meets_seq [OF reg s]) (auto simp: f dest: account_grows [OF _ evolves_db])
  then show ?thesis
    by (rule service.meets_attempt [OF _ s]) auto
next
  case False
  have "service.harmless E sch ?t"
    by (intro service.harmless_intros harmless_within harmless_calls [OF dep])
  then have "meets (service_inv E sch) evolves (\<lambda>_ _. True) ?t s" using s by blast
  then show ?thesis by (rule service.meets_cons) (use False in blast)
qed

lemma request_meets:
  assumes dep: "deployment E sch db" and null: "no_row_null E" and s: "service_inv E sch s"
    and t: "serve_thread E ctx r = Some t"
  shows "meets (service_inv E sch) evolves (promised r) t s"
proof -
  note free = harmless_answering harmless_handlers [OF dep null] harmless_reading [OF dep] free_db [OF dep]
  have trivial: "meets (service_inv E sch) evolves (promised r) t s"
    if "service.harmless E sch t" "\<And>res s. promised r res s"
    using service.meets_cons [OF that(1) [rule_format, OF s]] that(2) by blast
  note later = sent_live_evolves sent_stored_grows [OF _ evolves_db] account_grows [OF _ evolves_db]
  show ?thesis
  proof (cases r)
    case (CreateUser_rpc q)
    show ?thesis
      using t unfolding CreateUser_rpc
      by (auto simp: serve_thread_def CreateUser_thread_def account_ok_def dest: later
          intro!: meets_answering [OF register_meets [OF dep s, where P = "\<lambda>_. True"] s])
  next
    case (GenerateUser_rpc e1 e2)
    have digits: "utf8_length i \<le> 50" if ok: "entropy_ok e" and i: "fresh_id e = Some (Inr i)" for e i
    proof -
      obtain bs where "e = Inr bs" "length bs = 16"
        using ok i by (cases e) (auto simp: entropy_ok_def fresh_id_def random_generator_def)
      then show ?thesis using i fresh_id_random random_digits_fit by auto
    qed
    have raised: "meets (service_inv E sch) evolves (promised r)
        (answering (attempt (Done (Inl e)) (Done (Inr (Status INTERNAL [], empty_user)))) (\<lambda>(st, x). User_reply st x)) s" for e
      unfolding GenerateUser_rpc by (simp add: answering_def)
    have drawn: "meets (service_inv E sch) evolves (promised r)
        (answering (attempt (seq (within_db (createUser_thread E i j 0)) (\<lambda>(uid, admin).
               Done (Inr (status_ok, empty_user\<lparr>u_uname := i, u_token := j,
                 u_admin := pb_flag E admin, u_userid := uid\<rparr>))))
            (Done (Inr (Status INTERNAL [], empty_user)))) (\<lambda>(st, x). User_reply st x)) s"
      if "fresh_id e1 = Some (Inr i)" "fresh_id e2 = Some (Inr j)" for i j
      unfolding GenerateUser_rpc
      by (rule meets_answering [OF register_meets [OF dep s, where P = "\<lambda>u. u_uname u = i \<and> u_token u = j"] s])
         (use that digits in \<open>auto dest: later\<close>)
    show ?thesis
      using t raised drawn unfolding GenerateUser_rpc
      by (auto simp: serve_thread_def GenerateUser_thread_def Let_def split: option.splits sum.splits)
  next
    case (SendWrongthinkMessageWeb_rpc m)
    then have "t = answering (SendWrongthinkMessageWeb_thread E m) Meta_reply"
      using t by (simp add: serve_thread_def)
    then show ?thesis
      unfolding SendWrongthinkMessageWeb_rpc
      by (auto simp: accepted_def intro: later intro!: meets_answering [OF SendWeb_meets [OF dep null s] s])
  next
    case (SendWrongthinkMessage_rpc ms)
    then have "t = answering (SendWrongthinkMessage_thread E ms) Meta_reply"
      using t by (simp add: serve_thread_def)
    then show ?thesis
      unfolding SendWrongthinkMessage_rpc
      by (auto simp: accepted_def intro: later intro!: meets_answering [OF SendMessage_meets [OF dep null s] s])
  qed (rule trivial; use t in \<open>auto simp: serve_thread_def intro!: free\<close>)+
qed

section \<open>Names are taken once\<close>

lemma claims_within:
  assumes "claims (\<lambda>w. server_inv E sch (tabs w)) T W t"
  shows "claims (service_inv E sch) (\<lambda>s. T (world_of s)) W (within_db t)"
  using assms
proof (induction t)
  case (Step g)
  show ?case
    unfolding within_db.simps
  proof (rule claims_StepI)
    fix s s' u assume s: "service_inv E sch s"
      and u: "(case (map_prod id within_db \<circ> g) (world_of s) of (w, t) \<Rightarrow> (s\<lparr>world_of := w\<rparr>, t)) = (s', u)"
    obtain w t where g: "g (world_of s) = (w, t)" by (rule prod.exhaust)
    with u have "s' = s\<lparr>world_of := w\<rparr>" "u = within_db t" by auto
    moreover have "claims (\<lambda>w. server_inv E sch (tabs w)) T W t \<or> \<not> T (world_of s) \<and> T w"
      by (rule claims_Step [OF Step.prems _ g]) (rule service_inv_db [OF s])
    ultimately show "claims (service_inv E sch) (\<lambda>s. T (world_of s)) W u \<or>
        \<not> T (world_of s) \<and> T (world_of s')"
      using Step.IH [of "g (world_of s)" t, OF rangeI] g by auto
  qed
qed simp

definition name_in_use :: "string \<Rightarrow> world \<Rightarrow> bool" where
  "name_in_use u w \<longleftrightarrow> directory (tabs w) u \<noteq> None"

lemma createUser_claims:
  assumes dep: "deployment E sch db" and len: "utf8_length u \<le> 50" "utf8_length k \<le> 50" and a: "a = 0 \<or> a = 1"
  shows "claims (\<lambda>w. server_inv E sch (tabs w)) (name_in_use u) (\<lambda>r. \<exists>x. r = Inr x) (createUser_thread E u k a)"
proof -
  note b = deployment_backend [OF dep]
  let ?claims = "claims (\<lambda>w. server_inv E sch (tabs w)) (name_in_use u)"
  have insert: "?claims (\<lambda>r. \<exists>x. r = Inr x) (seq (atomic (exec E (insert_into E Users
      [(''uname'', Val (TextV u)), (''token'', Val (TextV k)), (''admin'', Val (IntV x))]))) f)"
    if "x = 0 \<or> x = 1" for x and f :: "unit \<Rightarrow> (world, int \<times> int) thread"
  proof (rule claims_atomic_seq)
    fix w r w' assume inv: "server_inv E sch (tabs w)" and run: "exec E (insert_into E Users
      [(''uname'', Val (TextV u)), (''token'', Val (TextV k)), (''admin'', Val (IntV x))]) w = (r, w')"
    obtain tb where tb: "tabs w Users = Some tb" by (rule backend.stored_table [OF b inv])
    show "(case r of Inl e \<Rightarrow> \<not> (\<exists>x. Inl e = Inr x) | Inr y \<Rightarrow> ?claims (\<lambda>r. \<exists>x. r = Inr x) (f y)) \<or>
        \<not> name_in_use u w \<and> name_in_use u w'"
    proof (cases r)
      case (Inr y)
      then have "TextV u \<notin> set (column_values tb 1)"
        using run backend.insert_user [OF b inv tb len \<open>x = 0 \<or> x = 1\<close>] by (auto simp: exec_def split: if_splits)
      then have "directory (tabs w) u = None"
        using tb by (simp add: backend.directory_None [OF b] stored_def column_values_def)
      moreover obtain i where "account u k i w'"
        using backend.insert_user_account [OF b inv len \<open>x = 0 \<or> x = 1\<close>] run Inr by auto
      ultimately show ?thesis by (auto simp: name_in_use_def account_def)
    qed simp
  qed
  show ?thesis
    unfolding createUser_thread_def Let_def
    by (rule claims_free(1), simp, rule claims_free(1), simp, rule claims_free(2), simp, rule insert) (use a in simp)
qed

lemma CreateUser_claims:
  assumes dep: "deployment E sch db" and q: "account_ok q" and t: "serve_thread E ctx (CreateUser_rpc q) = Some t"
  shows "claims (service_inv E sch) (\<lambda>s. name_in_use (cu_uname q) (world_of s))
    (\<lambda>r. \<exists>u. r = Inr (User_reply status_ok u)) t"
proof -
  let ?claims = "claims (service_inv E sch) (\<lambda>s. name_in_use (cu_uname q) (world_of s))"
  have "?claims (\<lambda>r. \<exists>x. r = Inr x) (within_db (createUser_thread E (cu_uname q) (cu_password q) (cu_admin q)))"
    by (rule claims_within [OF createUser_claims [OF dep]]) (use q in \<open>simp_all add: account_ok_def\<close>)
  then have "?claims (\<lambda>r. \<exists>u. r = Inr (status_ok, u)) (CreateUser_thread E q empty_user)"
    unfolding CreateUser_thread_def split_def
    by (intro claims_attempt claims_then [where W' = "\<lambda>r. \<exists>x. r = Inr x"]) auto
  then show ?thesis
    using t by (auto simp: serve_thread_def answering_def split_def
        intro!: claims_then [where W' = "\<lambda>r. \<exists>u. r = Inr (status_ok, u)"])
qed

section \<open>Properties\<close>

text \<open>Requests and the threads that serve them.\<close>

definition serving :: "env \<Rightarrow> (metadata \<times> rpc) list \<Rightarrow> (server, reply) thread list \<Rightarrow> bool" where
  "serving E calls ts \<longleftrightarrow> list_all2 (\<lambda>(ctx, r) t. serve_thread E ctx r = Some t) calls ts"

lemma serving_nth:
  "serving E calls ts \<Longrightarrow> i < length ts \<Longrightarrow> serve_thread E (fst (calls ! i)) (snd (calls ! i)) = Some (ts ! i)"
  by (auto simp: serving_def list_all2_conv_all_nth split_beta)

lemma serving_length: "serving E calls ts \<Longrightarrow> length ts = length calls"
  by (simp add: serving_def list_all2_lengthD)

lemma serving_meets:
  assumes "deployment E sch db" and "no_row_null E" and "service_inv E sch s" and "serving E calls ts"
    and "i < length ts"
  shows "meets (service_inv E sch) evolves (promised (snd (calls ! i))) (ts ! i) s"
  using request_meets [OF assms(1-3) serving_nth [OF assms(4,5)]] .

lemma serving_promises:
  assumes "deployment E sch db" and "no_row_null E" and "service_inv E sch s" and "serving E calls ts"
    and "schedule is ts s = (ts', s')" and "i < length ts" and "outcome (ts' ! i) = Some r"
  shows "promised (snd (calls ! i)) r s'"
  using service.schedule_results [OF assms(3) serving_meets [OF assms(1-4)] assms(5-7)] .


text \<open>Three requests on a server with one channel, and the threads that serve them.\<close>

definition rivals :: "(metadata \<times> rpc) list" where
  "rivals = map (Pair [])
     [SendWrongthinkMessage_rpc [hello, hello\<lparr>msg_text := ''again''\<rparr>],
      CreateUser_rpc \<lparr>cu_uname = ''bob'', cu_password = ''one'', cu_admin = 0\<rparr>,
      CreateUser_rpc \<lparr>cu_uname = ''bob'', cu_password = ''two'', cu_admin = 0\<rparr>]"

definition rival_threads :: "(server, reply) thread list" where
  "rival_threads = map (\<lambda>(ctx, r). the (serve_thread pg0 ctx r)) rivals"

lemma rivals_serving: "serving pg0 rivals rival_threads"
  by (simp add: serving_def rivals_def rival_threads_def serve_thread_def)

lemma chan_service_inv: "service_inv pg0 pg_schema chan_server"
  using chan_server_inv by (simp add: service_inv_def chan_server_def)



definition rival_schedule :: "nat list" where
  "rival_schedule = [0, 1, 2, 0, 1, 2, 0, 0, 0, 1, 0, 2, 0, 0, 1, 0, 0, 0, 2, 0, 1, 2, 0, 0]"

text \<open>The stream is accepted, and one of the two registrations.\<close>

lemma rivals_run:
  "map outcome (fst (schedule rival_schedule rival_threads chan_server)) =
     [Some (Inr (Meta_reply status_ok)),
      Some (Inr (User_reply status_ok \<lparr>u_userid = 2, u_uname = ''bob'', u_token = [], u_admin = 0\<rparr>)),
      Some (Inr (User_reply (Status INTERNAL []) empty_user))]"
  by code_simp

lemma rivals_outcomes:
  "outcome (fst (schedule rival_schedule rival_threads chan_server) ! 0) = Some (Inr (Meta_reply status_ok))"
  "outcome (fst (schedule rival_schedule rival_threads chan_server) ! 1) =
     Some (Inr (User_reply status_ok \<lparr>u_userid = 2, u_uname = ''bob'', u_token = [], u_admin = 0\<rparr>))"
  "length rival_threads = 3"
  using scheduled_outcome(2) [OF rivals_run, of 0] scheduled_outcome(2) [OF rivals_run, of 1]
    serving_length [OF rivals_serving] by (simp_all add: rivals_def)

lemma rival_schedule_eta:
  "schedule rival_schedule rival_threads chan_server =
    (fst (schedule rival_schedule rival_threads chan_server), snd (schedule rival_schedule rival_threads chan_server))"
  by (rule prod.collapse [symmetric])






end
