(* ===== verification/Reading.thy ===== *)
theory Reading
  imports Together
begin

text \<open>
  Types: every value that the server has stored has the type with which the handlers read it, and is
  there. So a reading handler never meets a value that it cannot read, whatever requests, one after
  the other or at the same time, filled the tables.
\<close>

section \<open>Complete messages\<close>

definition complete :: "db \<Rightarrow> bool" where
  "complete d \<longleftrightarrow> (\<forall>r \<in> set (stored d Messages). \<forall>i < 8. r ! i \<noteq> Null)"

lemma stored_other:
  "t \<noteq> u \<Longrightarrow> stored (snd (insert_into E t as now d)) u = stored d u"
  "t \<noteq> u \<Longrightarrow> stored (snd (update_set E t n e cs now d)) u = stored d u"
  by (auto simp: insert_into_def update_set_def stored_def Let_def split: option.splits sum.splits)

lemma keeps_complete_exec:
  assumes "\<And>now d. stored (snd (st now d)) Messages = stored d Messages"
  shows "keeps (\<lambda>w. complete (tabs w)) (exec E st)"
  using assms by (auto simp: keeps_def exec_def complete_def split_beta Let_def)

lemma keeps_conj: "keeps P m \<Longrightarrow> keeps Q m \<Longrightarrow> keeps (\<lambda>s. P s \<and> Q s) m"
  by (simp add: keeps_def)

definition typed :: "env \<Rightarrow> (tabname \<Rightarrow> column list) \<Rightarrow> db \<Rightarrow> bool" where
  "typed E sch d \<longleftrightarrow> server_inv E sch d \<and> complete d"

lemma typed_inv: "typed E sch d \<Longrightarrow> server_inv E sch d"
  by (simp add: typed_def)

context backend
begin

abbreviation typed_world :: "world \<Rightarrow> bool" where
  "typed_world w \<equiv> typed E sch (tabs w)"

lemma keeps_typed:
  "keeps (\<lambda>w. complete (tabs w)) m \<Longrightarrow> keeps inv_world m \<Longrightarrow> keeps typed_world m"
  unfolding typed_def by (simp add: keeps_def)

lemma keeps_typed_statements:
  "keeps typed_world (exec E (insert_into E Users
     [(''uname'', Val (TextV u)), (''token'', Val (TextV k)), (''admin'', Val (IntV a))]))"
  "keeps typed_world (exec E (insert_into E BannedUsers [(''user_id'', Val (IntV i)), (''expire'', NowPlus n)]))"
  "keeps typed_world (exec E (update_set E BannedUsers ''expire'' (NowPlus n) cs))"
  "keeps typed_world (exec E (insert_into E Communities
     [(''name'', Val (TextV u)), (''admin'', Val (IntV a)), (''public'', Val (IntV b))]))"
  "keeps typed_world (exec E (insert_into E Channels
     [(''name'', Val (TextV u)), (''community'', Val (IntV c)), (''admin'', Val (IntV a)), (''allow_anon'', Val (IntV b))]))"
  by (rule keeps_typed, rule keeps_complete_exec, rule stored_other, simp, rule keeps_statements)+

end

lemma keeps_typed_message:
  assumes dep: "deployment E sch db"
  shows "keeps (\<lambda>w. typed E sch (tabs w)) (insert_message E msg)"
proof (rule keepsI)
  fix w :: world assume w: "typed E sch (tabs w)"
  note inv = typed_inv [OF w]
  let ?as = "[(''user_id'', Val (IntV (msg_userid msg))), (''channel'', Val (IntV (msg_channelid msg))),
      (''thread_id'', Val (IntV (msg_threadid msg))), (''thread_child'', Val (IntV (msg_threadchild msg))),
      (''mtext'', Val (TextV (msg_text msg)))]"
  obtain r d' where run: "insert_into E Messages ?as (clock E (ticks w)) (tabs w) = (r, d')" by (rule prod.exhaust)
  have "server_inv E sch (tabs (snd (insert_message E msg w)))"
    by (rule keepsD [OF db_contract.keeps_insert_message [OF deployment_contract [OF dep]] inv])
  moreover have "complete d'"
  proof (cases r)
    case (Inl e)
    from insert_into_Inl [OF run [unfolded this]] have "stored d' Messages = stored (tabs w) Messages"
      by (auto simp: stored_def bump_def)
    with w show ?thesis by (simp add: typed_def complete_def)
  next
    case (Inr x)
    obtain tb row where "tabs w Messages = Some tb" "d' = (tabs w)(Messages \<mapsto> with_row tb row)" "\<forall>i < 8. row ! i \<noteq> Null"
      by (rule backend.insert_message_Inr [OF deployment_backend [OF dep] inv]) (use run Inr in auto)
    with w show ?thesis by (auto simp: typed_def complete_def stored_def)
  qed
  moreover have "tabs (snd (insert_message E msg w)) = d'" using run by (simp add: insert_message_def exec_def)
  ultimately show "typed E sch (tabs (snd (insert_message E msg w)))" by (simp add: typed_def)
qed

section \<open>Every request, alone or among others, keeps the types\<close>

lemma safe_attempt: "safe P t \<Longrightarrow> safe P h \<Longrightarrow> safe P (attempt t h)"
proof (induction t)
  case (Done r)
  then show ?case by (auto split: sum.splits)
next
  case (Step g)
  have "P (fst (g s)) \<and> safe P (attempt (snd (g s)) h)" if "P s" for s
  proof -
    have "P (fst (g s)) \<and> safe P (snd (g s))" using Step.prems(1) that by (simp add: split_beta)
    then show ?thesis using Step.IH [of "g s" "snd (g s)", OF rangeI] Step.prems(2) by (cases "g s") simp
  qed
  then show ?case by (simp add: split_beta)
qed

lemma safe_within: "safe (\<lambda>w. P (tabs w)) t \<Longrightarrow> safe (\<lambda>s. P (tabs (world_of s))) (within_db t)"
proof (induction t)
  case (Step g)
  have "P (tabs (fst (g w))) \<and> safe (\<lambda>s. P (tabs (world_of s))) (within_db (snd (g w)))" if "P (tabs w)" for w
  proof -
    have "P (tabs (fst (g w))) \<and> safe (\<lambda>w. P (tabs w)) (snd (g w))" using Step.prems that by (simp add: split_beta)
    then show ?thesis using Step.IH [of "g w" "snd (g w)", OF rangeI] by (cases "g w") simp
  qed
  then show ?case by (simp add: split_beta)
qed simp

lemma safe_cases:
  "(\<And>a b. safe P (f a b)) \<Longrightarrow> safe P (case x of (a, b) \<Rightarrow> f a b)"
  "(\<And>e. safe P (g e)) \<Longrightarrow> (\<And>a. safe P (h a)) \<Longrightarrow> safe P (case y of Inl e \<Rightarrow> g e | Inr a \<Rightarrow> h a)"
  by (cases x, simp, cases y, simp_all)

lemmas safe_intros = safe_seq safe_atomic safe_Done safe_if safe_attempt safe_cases

lemma safe_typed_threads:
  assumes dep: "deployment E sch db"
  defines "P \<equiv> \<lambda>w. typed E sch (tabs w)"
  shows "safe P (isUserValid_thread E u k)" and "safe P (isUserAdmin_thread E u)"
    and "safe P (banUser_thread E u n)" and "safe P (createUser_thread E u k a)"
    and "safe P (createChannel_thread E c com i b)" and "safe P (createCommunity_thread E c i b)"
  unfolding P_def isUserValid_thread_def isUserAdmin_thread_def banUser_thread_def createUser_thread_def
    createChannel_thread_def createCommunity_thread_def Let_def
  by (intro safe_intros keeps_session keeps_query keeps_if
      backend.keeps_typed_statements [OF deployment_backend [OF dep]])+

lemma safe_typed_check:
  "safe (\<lambda>s. P (tabs (world_of s))) (checkForChannel_thread E i)"
  unfolding checkForChannel_thread_def pg_getChannelRow_def by (intro safe_intros keeps_intros)

lemma safe_typed_send_loop:
  assumes dep: "deployment E sch db"
  shows "safe (\<lambda>s. typed E sch (tabs (world_of s))) (send_loop_thread E rd)"
proof (induction "length (objList rd) - pos rd" arbitrary: rd rule: less_induct)
  case less
  have "safe (\<lambda>s. typed E sch (tabs (world_of s))) (send_loop_thread E rd')"
    if "Read rd = Inr (Some m, rd')" for m rd'
    by (rule less) (use that in \<open>auto simp: Read_def split: if_splits\<close>)
  then show ?case
    by (subst send_loop_thread.simps)
       (auto split: sum.splits option.splits prod.splits
         intro!: safe_intros safe_typed_check keeps_map_ops keeps_on_db keeps_typed_message [OF dep])
qed

lemma safe_typed_serving:
  assumes dep: "deployment E sch db" and t: "serve_thread E ctx r = Some t"
  shows "safe (\<lambda>s. typed E sch (tabs (world_of s))) t"
proof -
  note intros = safe_intros safe_within safe_typed_threads [OF dep] safe_typed_check safe_typed_send_loop [OF dep]
    keeps_map_ops keeps_on_db keeps_session keeps_query keeps_prepare keeps_typed_message [OF dep]
  have "safe (\<lambda>s. typed E sch (tabs (world_of s))) t" if "GenerateUser_thread E e1 e2 u = Some t" for e1 e2 u t
    using that unfolding GenerateUser_thread_def Let_def
    by (auto split: option.splits sum.splits intro!: safe_attempt safe_seq safe_Done safe_within
        safe_typed_threads [OF dep])
  then show ?thesis
    using t
    by (cases r)
       (auto simp: serve_thread_def answering_def BanUser_thread_def CreateUser_thread_def
         CreateWrongthinkChannel_thread_def CreateWrongthinkCommunity_thread_def SendWrongthinkMessageWeb_thread_def
         SendWrongthinkMessage_thread_def ListenWrongthinkMessages_thread_def reading_thread_def
         pg_getCommunityChannelsRowset_def pg_getCommunityRowset_def pg_getChannelMessages_def intro!: intros)
qed

section \<open>Reading succeeds\<close>

context backend
begin

lemma typed_value:
  "well_typed c v \<Longrightarrow> v \<noteq> Null \<Longrightarrow> c \<in> {Serial, RowId, IntT, BoolT} \<Longrightarrow> \<exists>n. v = IntV n"
  "well_typed TextT v \<Longrightarrow> v \<noteq> Null \<Longrightarrow> \<exists>t. v = TextV t"
  by (cases v; auto)+

lemma complete_row:
  assumes d: "typed E sch d" and r: "r \<in> set (stored d Messages)"
  obtains i u c th tc ed tx now where
    "r = [IntV i, IntV u, IntV c, IntV th, IntV tc, IntV ed, TextV tx, IntV now]"
proof -
  note inv = typed_inv [OF d]
  have len: "length r = 8" by (rule message_row_shape [OF inv r])
  have val: "well_typed (ctype (sch Messages ! i)) (r ! i)" "r ! i \<noteq> Null" if "i < 8" for i
    using stored_row(2) [OF inv r, of i] that d r by (auto simp: message_columns typed_def complete_def)
  have int: "\<exists>n. r ! i = IntV n" if "i \<in> {0, 1, 2, 3, 4, 5, 7}" for i
    by (rule typed_value(1) [OF val]) (use that backend_schema in \<open>auto simp: plain_def\<close>)
  have "\<exists>t. r ! 6 = TextV t"
    by (rule typed_value(2)) (use val [of 6] backend_schema in \<open>auto simp: plain_def\<close>)
  moreover have "r = [r ! 0, r ! 1, r ! 2, r ! 3, r ! 4, r ! 5, r ! 6, r ! 7]"
    using len by (auto simp: list_eq_iff_nth_eq less_Suc_eq numeral_eq_Suc)
  ultimately show thesis
    using that int [of 0] int [of 1] int [of 2] int [of 3] int [of 4] int [of 5] int [of 7] by (metis insertCI)
qed

lemma read_message_ok:
  "\<exists>m. read_message E message_header ch
      ([IntV i, IntV u, IntV c, IntV th, IntV tc, IntV ed, TextV tx, IntV now] @ [IntV u', TextV n, k, v]) = Inr m"
proof -
  have pick: "pick_column E [x] = x" for x using pick_column_mem [of "[x]"] by simp
  have two: "pick_column E [1, 8] = 1 \<or> pick_column E [1, 8] = 8" using pick_column_mem [of "[1, 8]"] by simp
  then show ?thesis
    by (auto simp: read_message_def named_int_def named_string_def named_def row_int_def row_string_def
        header_simps pick soci_int_IntV soci_string_TextV numeral_eq_Suc)
qed

lemma history_readable:
  assumes d: "typed E sch d" and r: "r \<in> set (history d ch)"
  shows "\<exists>m. read_message E message_header ch r = Inr m"
proof -
  obtain x y where xy: "r = x @ y" "x \<in> set (stored d Messages)" "y \<in> set (stored d Users)"
    using r by (auto simp: history_def message_join_mem)
  obtain i u c th tc ed tx now where x: "x = [IntV i, IntV u, IntV c, IntV th, IntV tc, IntV ed, TextV tx, IntV now]"
    by (rule complete_row [OF d xy(2)])
  obtain j n k v where y: "y = [IntV j, TextV n, TextV k, v]" by (rule user_row_shape [OF typed_inv [OF d] xy(3)])
  from read_message_ok show ?thesis unfolding xy(1) x y .
qed

end

lemma read_all_length: "fst (read_all g rs) = Inr () \<Longrightarrow> length (snd (read_all g rs)) = length rs"
  by (induction rs) (auto simp: Let_def split_beta split: sum.splits)

lemma GetMessages_answers:
  assumes dep: "deployment E sch db" and d: "typed E sch (tabs (world_of s))" and up: "session_up E (sessions (world_of s))"
  shows "\<exists>s' ms. GetWrongthinkMessages E db ctx req (s, []) = (Inr status_ok, (s', ms)) \<and> same_data s' s \<and>
    length ms = length (history (tabs (world_of s)) (gm_channelid req))"
proof -
  note b = deployment_backend [OF dep]
  let ?g = "read_message E message_header (gm_channelid req)" and ?h = "history (tabs (world_of s)) (gm_channelid req)"
  have "?g r = Inr (projr (?g r))" if "r \<in> set ?h" for r
    using backend.history_readable [OF b d that] by auto
  then have all: "read_all ?g ?h = (Inr (), map (\<lambda>r. projr (?g r)) ?h)" by (rule read_all_cong)
  show ?thesis
    unfolding GetWrongthinkMessages_def
      db_contract.GetMessages_run [OF deployment_contract [OF dep] typed_inv [OF d] up] all
    by (simp add: same_data_def)
qed

lemma serving_typed:
  assumes dep: "deployment E sch db" and d: "typed E sch (tabs (world_of s))"
    and ts: "serving E calls ts" and run: "schedule is ts s = (ts', s')"
  shows "typed E sch (tabs (world_of s'))"
proof -
  have "list_all (safe (\<lambda>s. typed E sch (tabs (world_of s)))) ts"
    using safe_typed_serving [OF dep serving_nth [OF ts]] by (simp add: list_all_length)
  then show ?thesis
    using schedule_safe [where P = "\<lambda>s. typed E sch (tabs (world_of s))", OF d, of ts "is"] run by simp
qed

section \<open>Properties\<close>

text \<open>C15 (types). Whatever requests have filled the tables, in any interleaving, what they stored has
  the types that the handlers read it with: \<^verbatim>\<open>GetWrongthinkMessages\<close> answers OK, with one
  message for each row of the channel's history, if only a connection to the database can be
  opened; no row makes it fail.\<close>

theorem stored_messages_readable:
  assumes dep: "deployment E sch db" and d: "typed E sch (tabs (world_of s))"
    and ts: "serving E calls ts" and run: "schedule is ts s = (ts', s')"
    and up: "session_up E (sessions (world_of s'))"
  shows "\<exists>s'' ms. GetWrongthinkMessages E db ctx req (s', []) = (Inr status_ok, (s'', ms)) \<and>
    length ms = length (history (tabs (world_of s')) (gm_channelid req))"
  using GetMessages_answers [OF dep serving_typed [OF dep d ts run] up] by blast

theorem stored_messages_readable_witness:
  "\<exists>s'' m1 m2. GetWrongthinkMessages pg0 (pg_db pg0) [] get_all
    (snd (schedule rival_schedule rival_threads chan_server), []) = (Inr status_ok, (s'', [m1, m2]))"
proof -
  let ?s = "snd (schedule rival_schedule rival_threads chan_server)"
  have none: "stored (tabs chan_world) Messages = []" by (simp add: stored_def chan_server_facts)
  have typed: "typed pg0 pg_schema (tabs (world_of chan_server))"
    using chan_server_inv none by (simp add: typed_def complete_def chan_server_def)
  have up: "session_up pg0 (sessions (world_of ?s))" by simp
  obtain s'' ms where ms: "GetWrongthinkMessages pg0 (pg_db pg0) [] get_all (?s, []) = (Inr status_ok, (s'', ms))"
      "length ms = length (history (tabs (world_of ?s)) (gm_channelid get_all))"
    using stored_messages_readable [OF pg0_deployment typed rivals_serving rival_schedule_eta up] by blast
  have "length (history (tabs (world_of ?s)) (gm_channelid get_all)) = 2" by code_simp
  with ms show ?thesis by (auto simp: length_Suc_conv numeral_eq_Suc)
qed

end
