(* ===== verification/Interceptor.thy ===== *)
theory Interceptor
  imports Database Auth
begin

text \<open>
  \<^verbatim>\<open>Interceptors/Interceptor\<close>: the server interceptor that runs before each call. It
  turns banned peers away, logs the call, and looks for banned users. A factory creates one for
  each call, with the database object and the logger of the server. \<^verbatim>\<open>Intercept\<close> has no
  \<^verbatim>\<open>try\<close> block: an exception of the database layer leaves it.
\<close>

datatype hook_point =
    PRE_SEND_INITIAL_METADATA | PRE_SEND_MESSAGE | PRE_SEND_STATUS
  | POST_RECV_INITIAL_METADATA | POST_RECV_MESSAGE | POST_RECV_CLOSE
  | PRE_RECV_STATUS | POST_RECV_STATUS

text \<open>
  A field of a received protobuf message: its name, the default that the message's
  descriptor declares for it, and the value in this message.
\<close>

record field =
  field_name :: string
  field_default :: string
  field_value :: string

record call =
  peer :: string
  rpc_method :: string
  request_type :: string
  request_debug :: string
  request_fields :: "field list"
  client_metadata :: metadata

datatype log_line =
    RpcLine string string string string
  | MetadataHeading
  | MetadataLine string string

text \<open>The logger that the objects of the server share: its sinks, as they are set up at the start.\<close>

datatype log_level = trace_level | info_level

datatype sink =
    stdout_color_sink log_level string
  | basic_file_sink string bool log_level

record logger =
  logger_name :: string
  sinks :: "sink list"

text \<open>One \<^verbatim>\<open>LoggingInterceptor\<close> per call, which the factory creates.\<close>

record logging_interceptor =
  li_info :: call
  li_db :: db_interface
  li_logger :: logger

definition LoggingInterceptor_of :: "call \<Rightarrow> db_interface \<Rightarrow> logger \<Rightarrow> logging_interceptor" where
  "LoggingInterceptor_of info db l = \<lparr>li_info = info, li_db = db, li_logger = l\<rparr>"

record interceptor_factory =
  lf_db :: db_interface
  lf_logger :: logger

definition LoggingInterceptorFactory_of :: "db_interface \<Rightarrow> logger \<Rightarrow> interceptor_factory" where
  "LoggingInterceptorFactory_of db l = \<lparr>lf_db = db, lf_logger = l\<rparr>"

definition CreateServerInterceptor :: "interceptor_factory \<Rightarrow> call \<Rightarrow> logging_interceptor" where
  "CreateServerInterceptor f info = LoggingInterceptor_of info (lf_db f) (lf_logger f)"

record intercepted =
  iworld :: world
  cancelled :: bool
  proceeded :: bool
  log_lines :: "log_line list"

definition in_world :: "(world, 'a) io \<Rightarrow> (intercepted, 'a) io" where
  "in_world m s = (let (r, w) = m (iworld s) in (r, s\<lparr>iworld := w\<rparr>))"

definition TryCancel :: "(intercepted, unit) io" where
  "TryCancel s = (Inr (), s\<lparr>cancelled := True\<rparr>)"

definition Proceed :: "(intercepted, unit) io" where
  "Proceed s = (Inr (), s\<lparr>proceeded := True\<rparr>)"

definition log_to :: "log_line list \<Rightarrow> (intercepted, unit) io" where
  "log_to ls s = (Inr (), s\<lparr>log_lines := log_lines s @ ls\<rparr>)"

definition check_peer :: "db_interface \<Rightarrow> call \<Rightarrow> (intercepted, unit) io" where
  "check_peer db c = bind_io (in_world (isIPBanned db (peer c))) (\<lambda>b. if b then TryCancel else ret ())"

definition log_call :: "call \<Rightarrow> (intercepted, unit) io" where
  "log_call c = log_to (RpcLine (rpc_method c) (peer c) (request_type c) (request_debug c)
     # MetadataHeading # map (\<lambda>(k, v). MetadataLine k v) (client_metadata c))"

text \<open>The name that is checked is \<^verbatim>\<open>fDesc->default_value_string()\<close>: the default from
  the descriptor, not the value in the message.\<close>

definition check_user :: "db_interface \<Rightarrow> call \<Rightarrow> (intercepted, unit) io" where
  "check_user db c = (case List.find (\<lambda>f. field_name f = ''uname'') (request_fields c) of
      None \<Rightarrow> ret ()
    | Some fDesc \<Rightarrow>
        (let uname = field_default fDesc in
         bind_io (in_world (isUserBanned db uname (peer c))) (\<lambda>b. if b then TryCancel else ret ())))"

definition Intercept :: "db_interface \<Rightarrow> hook_point list \<Rightarrow> call \<Rightarrow> (intercepted, unit) io" where
  "Intercept db hooks c =
     bind_io (if POST_RECV_INITIAL_METADATA \<in> set hooks then check_peer db c else ret ()) (\<lambda>_.
     bind_io (if POST_RECV_MESSAGE \<in> set hooks
              then bind_io (log_call c) (\<lambda>_. check_user db c) else ret ()) (\<lambda>_.
     Proceed))"

text \<open>The interceptors of a call: one from each registered factory, in their order.\<close>

fun intercept_call :: "interceptor_factory list \<Rightarrow> hook_point list \<Rightarrow> call \<Rightarrow> (intercepted, unit) io" where
  "intercept_call [] hooks c = ret ()"
| "intercept_call (f # fs) hooks c =
     (let i = CreateServerInterceptor f c in
      bind_io (Intercept (li_db i) hooks (li_info i)) (\<lambda>_. intercept_call fs hooks c))"

end
