(* ===== verification/Gate.thy ===== *)
theory Gate
  imports Interceptor Contract
begin

text \<open>
  What the interceptor keeps out: calls from banned addresses are cancelled, calls that name a
  banned user are not.
\<close>

lemma Intercept_message:
  assumes "POST_RECV_MESSAGE \<in> set hooks" and "POST_RECV_INITIAL_METADATA \<notin> set hooks"
  shows "Intercept db hooks c = bind_io (log_call c) (\<lambda>_. bind_io (check_user db c) (\<lambda>_. Proceed))"
  using assms by (simp add: Intercept_def bind_io_assoc)

lemma Intercept_metadata:
  assumes "POST_RECV_INITIAL_METADATA \<in> set hooks" and "POST_RECV_MESSAGE \<notin> set hooks"
  shows "Intercept db hooks c = bind_io (check_peer db c) (\<lambda>_. Proceed)"
  using assms by (simp add: Intercept_def)

section \<open>Properties\<close>

text \<open>A world in which \<^verbatim>\<open>ann\<close> is banned.\<close>

definition banned_world :: world where
  "banned_world = snd (banUser (pg_db pg0) ''ann'' 3 ann_world)"

lemma banned_world_inv: "server_inv pg0 pg_schema (tabs banned_world)"
  unfolding banned_world_def deployment_methods [OF pg0_deployment]
  by (rule backend.keeps_banUser [OF pg0_backend, THEN keepsD, OF ann_inv])

lemma banned_world_bans:
  "user_ban (tabs banned_world) ''ann'' = Some (IntV 1859200012)"
  "user_ban (tabs banned_world) [] = None"
  "single_bans (tabs banned_world)"
  by code_simp+

text \<open>C32 (banned users). The user check never looks at the message: with the default that the
  protocol declares for \<^verbatim>\<open>uname\<close> (for a proto3 string, the empty one) not being the name of
  a banned user, a call goes on uncancelled, whoever it names.\<close>

theorem banned_user_passes:
  assumes dep: "deployment E sch db" and inv: "server_inv E sch (tabs (iworld s))"
    and one: "single_bans (tabs (iworld s))" and up: "session_up E (sessions (iworld s))"
    and hooks: "POST_RECV_MESSAGE \<in> set hooks" "POST_RECV_INITIAL_METADATA \<notin> set hooks"
    and field: "List.find (\<lambda>f. field_name f = ''uname'') (request_fields c) = Some f"
    and dflt: "user_ban (tabs (iworld s)) (field_default f) = None"
  shows "\<exists>s'. Intercept db hooks c s = (Inr (), s') \<and> proceeded s' \<and> cancelled s' = cancelled s"
proof -
  have "isUserBanned db (field_default f) (peer c) (iworld s) =
      (Inr False, (iworld s)\<lparr>sessions := Suc (sessions (iworld s)), ticks := Suc (ticks (iworld s))\<rparr>)"
    using backend.isUserBanned_run(1) [OF deployment_backend [OF dep] inv one up dflt]
    by (simp add: deployment_methods [OF dep])
  then show ?thesis
    using field unfolding Intercept_message [OF hooks]
    by (simp add: check_user_def log_call_def log_to_def bind_io_def in_world_def Proceed_def)
qed

definition ann_call :: call where
  "ann_call = \<lparr>peer = ''ipv4:10.0.0.1:5000'', rpc_method = ''CreateUser'', request_type = ''CreateUserRequest'',
     request_debug = [], request_fields = [\<lparr>field_name = ''uname'', field_default = [], field_value = ''ann''\<rparr>],
     client_metadata = []\<rparr>"

theorem banned_user_passes_witness:
  "user_ban (tabs banned_world) (field_value (hd (request_fields ann_call))) = Some (IntV 1859200012) \<and>
   (\<exists>s'. Intercept (pg_db pg0) [POST_RECV_MESSAGE] ann_call
      \<lparr>iworld = banned_world, cancelled = False, proceeded = False, log_lines = []\<rparr> = (Inr (), s') \<and>
      proceeded s' \<and> \<not> cancelled s')"
  using banned_user_passes [OF pg0_deployment, of "\<lparr>iworld = banned_world, cancelled = False, proceeded = False, log_lines = []\<rparr>"
      "[POST_RECV_MESSAGE]" ann_call]
  by (simp add: banned_world_inv banned_world_bans ann_call_def)


definition pg0_later :: env where
  "pg0_later = pg0_dates\<lparr>c_mktime := (\<lambda>_. 2000000000)\<rparr>"

lemma pg0_later_deployment: "deployment pg0_later pg_schema (pg_db pg0_later)"
proof -
  have "backend pg0_later pg_schema"
    by unfold_locales (auto simp: pg0_later_def pg0_dates_def dest: pg_coerce_typed)
  then show ?thesis by (simp add: deployment_def)
qed

lemma pg0_later_inv: "server_inv pg0_later sch d = server_inv pg0_dates sch d"
  by (simp add: server_inv_def db_ok_iff violation_def pg0_later_def)

lemma pg0_later_simps:
  "session_up pg0_later n" "soci_tm pg0_later x = Inr some_tm" "c_mktime pg0_later t = 2000000000"
  "clock pg0_later = (\<lambda>n. 1600000000 + int n)"
  by (simp_all add: pg0_later_def pg0_dates_simps)


end
