(* ===== verification/Guarded.thy ===== *)
theory Guarded
  imports Reading Gate
begin

text \<open>
  Requests behind the interceptor. Every call is first seen by \<^verbatim>\<open>LoggingInterceptor\<close>, which
  asks the database for bans and may delete or record one; all of this runs concurrently with the
  other requests. Whether gRPC still serves a call that the interceptor has cancelled is the
  argument \<open>serve_cancelled\<close>: \<^verbatim>\<open>TryCancel\<close> is documented as best effort.
\<close>

section \<open>The interceptor as a thread\<close>

definition isIPBanned_thread :: "env \<Rightarrow> string \<Rightarrow> (world, bool) thread" where
  "isIPBanned_thread E ip =
     seq (atomic (getSociSession E)) (\<lambda>_.
     seq (atomic (query E (\<lambda>d. bind_sum (select_from E BannedIps [(Col ''ip'', TextV ip)] d)
                             (\<lambda>R. into_tm E R ''expire''))))
       (\<lambda>date. case date of
          None \<Rightarrow> Done (Inr False)
        | Some date \<Rightarrow>
            seq (atomic (read_clock E)) (\<lambda>tc.
            if tc > c_mktime E date
            then seq (atomic (exec E (delete_from E BannedIps [(Col ''ip'', TextV ip)]))) (\<lambda>_. Done (Inr False))
            else Done (Inr True))))"

definition isUserBanned_thread :: "env \<Rightarrow> string \<Rightarrow> string \<Rightarrow> (world, bool) thread" where
  "isUserBanned_thread E uname ip =
     seq (atomic (getSociSession E)) (\<lambda>_.
     seq (atomic (query E (\<lambda>d. bind_sum (select_join E BannedUsers Users
                 (QCol Users ''user_id'') (QCol BannedUsers ''user_id'') [(Col ''uname'', TextV uname)] d)
               (\<lambda>R. into_tm E R ''expire''))))
       (\<lambda>date. case date of
          None \<Rightarrow> Done (Inr False)
        | Some date \<Rightarrow>
            seq (atomic (read_clock E)) (\<lambda>tc.
            if tc > c_mktime E date
            then seq (atomic (exec E (delete_from E BannedUsers [(Col ''uname'', TextV uname)]))) (\<lambda>_. Done (Inr False))
            else seq (isIPBanned_thread E ip) (\<lambda>b.
              if \<not> b
              then seq (atomic (exec E (insert_into E BannedIps
                     [(''ip'', Val (TextV ip)), (''expire'', Val (TimeV date))]))) (\<lambda>_. Done (Inr True))
              else Done (Inr True)))))"

text \<open>The result tells whether the call has been cancelled.\<close>

definition Intercept_thread :: "env \<Rightarrow> hook_point list \<Rightarrow> call \<Rightarrow> (server, bool) thread" where
  "Intercept_thread E hooks c =
     seq (if POST_RECV_INITIAL_METADATA \<in> set hooks then within_db (isIPBanned_thread E (peer c))
          else Done (Inr False)) (\<lambda>banned_peer.
     seq (if POST_RECV_MESSAGE \<in> set hooks
          then (case List.find (\<lambda>f. field_name f = ''uname'') (request_fields c) of
              None \<Rightarrow> Done (Inr False)
            | Some fDesc \<Rightarrow> within_db (isUserBanned_thread E (field_default fDesc) (peer c)))
          else Done (Inr False)) (\<lambda>banned_user.
     Done (Inr (banned_peer \<or> banned_user))))"

text \<open>Left alone, it is the interceptor.\<close>

lemma ban_threads_run:
  "run_thread (isIPBanned_thread E ip) = pg_isIPBanned E ip"
  "run_thread (isUserBanned_thread E u ip) = pg_isUserBanned E u ip"
proof -
  show ip: "run_thread (isIPBanned_thread E ip) = pg_isIPBanned E ip"
    unfolding isIPBanned_thread_def pg_isIPBanned_def run_simps option.case_distrib [of run_thread]
    by (simp only: lift_sum_cases)
  show "run_thread (isUserBanned_thread E u ip) = pg_isUserBanned E u ip"
    unfolding isUserBanned_thread_def pg_isUserBanned_def run_simps option.case_distrib [of run_thread] ip
    by (simp only: lift_sum_cases)
qed

definition fresh_call :: "world \<Rightarrow> intercepted" where
  "fresh_call w = \<lparr>iworld = w, cancelled = False, proceeded = False, log_lines = []\<rparr>"

text \<open>The two checks, as calls of the database layer.\<close>

definition peer_check :: "env \<Rightarrow> hook_point list \<Rightarrow> call \<Rightarrow> (world, bool) io" where
  "peer_check E hooks c =
     (if POST_RECV_INITIAL_METADATA \<in> set hooks then pg_isIPBanned E (peer c) else ret False)"

definition user_check :: "env \<Rightarrow> hook_point list \<Rightarrow> call \<Rightarrow> (world, bool) io" where
  "user_check E hooks c = (if POST_RECV_MESSAGE \<in> set hooks
     then (case List.find (\<lambda>f. field_name f = ''uname'') (request_fields c) of None \<Rightarrow> ret False
       | Some f \<Rightarrow> pg_isUserBanned E (field_default f) (peer c)) else ret False)"

lemma ret_False: "on_db (ret False) = ret False" "in_world (ret False) = ret False"
  by (rule ext, simp add: on_db_def in_world_def bind_io_def)+

lemma Intercept_thread_conv:
  "run_thread (Intercept_thread E hooks c) =
    bind_io (on_db (peer_check E hooks c)) (\<lambda>a. bind_io (on_db (user_check E hooks c)) (\<lambda>b. ret (a \<or> b)))"
  unfolding Intercept_thread_def run_simps option.case_distrib [of run_thread] ban_threads_run lift_sum_cases
    peer_check_def user_check_def if_distrib [of on_db] option.case_distrib [of on_db] ret_False
  by (rule refl)

lemma Intercept_conv:
  assumes dep: "deployment E sch db"
  shows "Intercept db hooks c =
    bind_io (bind_io (in_world (peer_check E hooks c)) (\<lambda>b. if b then TryCancel else ret ())) (\<lambda>_.
    bind_io (if POST_RECV_MESSAGE \<in> set hooks then log_call c else ret ()) (\<lambda>_.
    bind_io (bind_io (in_world (user_check E hooks c)) (\<lambda>b. if b then TryCancel else ret ())) (\<lambda>_. Proceed)))"
  by (cases "List.find (\<lambda>f. field_name f = ''uname'') (request_fields c)")
     (simp_all add: Intercept_def peer_check_def user_check_def check_peer_def check_user_def ret_False bind_io_assoc
       deployment_methods [OF dep])

lemma Intercept_thread_run:
  assumes dep: "deployment E sch db"
  shows "run_thread (Intercept_thread E hooks c) s =
    (case Intercept db hooks c (fresh_call (world_of s)) of
       (Inl e, i) \<Rightarrow> (Inl e, s\<lparr>world_of := iworld i\<rparr>)
     | (Inr _, i) \<Rightarrow> (Inr (cancelled i), s\<lparr>world_of := iworld i\<rparr>))"
proof -
  obtain p w where p: "peer_check E hooks c (world_of s) = (p, w)" by (rule prod.exhaust)
  obtain u v where u: "user_check E hooks c w = (u, v)" by (rule prod.exhaust)
  note defs = Intercept_thread_conv Intercept_conv [OF dep] bind_io_def on_db_def in_world_def TryCancel_def
    Proceed_def log_call_def log_to_def fresh_call_def
  show ?thesis
  proof (cases p)
    case (Inl e)
    with p show ?thesis by (simp add: defs)
  next
    case (Inr b)
    with p u show ?thesis by (cases u) (simp_all add: defs)
  qed
qed

section \<open>Guarded requests\<close>

definition guarded_thread ::
  "env \<Rightarrow> bool \<Rightarrow> hook_point list \<Rightarrow> call \<Rightarrow> rpc \<Rightarrow> (server, reply option) thread option" where
  "guarded_thread E serve_cancelled hooks c r = map_option (\<lambda>t.
     seq (Intercept_thread E hooks c) (\<lambda>cancelled.
     if cancelled \<and> \<not> serve_cancelled then Done (Inr None)
     else answering t Some)) (serve_thread E (client_metadata c) r)"

lemma store_bans:
  assumes dep: "deployment E sch db"
  shows "store.harmless E sch (isIPBanned_thread E ip)" and "store.harmless E sch (isUserBanned_thread E u ip)"
proof -
  note b = deployment_backend [OF dep]
  note stm = keeps_query keeps_session keeps_read_clock backend.keeps_statements [OF b] backend.keeps_delete [OF b]
    keeps_grows_read keeps_grows_statements
  show ip: "store.harmless E sch (isIPBanned_thread E ip)"
    unfolding isIPBanned_thread_def by (intro store.harmless_intros store.harmless_atomic stm)
  show "store.harmless E sch (isUserBanned_thread E u ip)"
    unfolding isUserBanned_thread_def by (intro store.harmless_intros store.harmless_atomic stm ip)
qed

lemma harmless_intercept:
  assumes dep: "deployment E sch db"
  shows "service.harmless E sch (Intercept_thread E hooks c)"
  unfolding Intercept_thread_def
  by (intro service.harmless_intros harmless_within store_bans [OF dep])

lemma guarded_meets:
  assumes dep: "deployment E sch db" and null: "no_row_null E" and s: "service_inv E sch s"
    and t: "guarded_thread E sc hooks c r = Some t"
  shows "meets (service_inv E sch) evolves (\<lambda>res s. \<forall>a. res = Inr (Some a) \<longrightarrow> promised r (Inr a) s) t s"
proof -
  obtain u where u: "serve_thread E (client_metadata c) r = Some u"
    and t: "t = seq (Intercept_thread E hooks c) (\<lambda>b. if b \<and> \<not> sc then Done (Inr None) else answering u Some)"
    using t by (auto simp: guarded_thread_def)
  let ?Q = "\<lambda>res s. \<forall>a. res = Inr (Some a) \<longrightarrow> promised r (Inr a) s"
  have "meets (service_inv E sch) evolves ?Q (answering u Some) s'" if s': "service_inv E sch s'" for s'
    unfolding answering_def
    by (rule service.meets_seq [OF request_meets [OF dep null s' u] s'])
       (auto intro: promised_later)
  then show ?thesis
    unfolding t by (intro service.meets_seq [OF harmless_intercept [OF dep, rule_format, OF s] s]) auto
qed

text \<open>The interceptor keeps the types of the stored values, too.\<close>

lemma stored_other_delete: "t \<noteq> u \<Longrightarrow> stored (snd (delete_from E t cs now d)) u = stored d u"
  by (auto simp: delete_from_def stored_def Let_def split: option.splits sum.splits)

context backend
begin

lemma keeps_typed_bans:
  "keeps typed_world (exec E (delete_from E BannedIps cs))"
  "keeps typed_world (exec E (delete_from E BannedUsers cs))"
  "keeps typed_world (exec E (insert_into E BannedIps [(''ip'', Val (TextV ip)), (''expire'', Val (TimeV date))]))"
  by (rule keeps_typed, rule keeps_complete_exec, (rule stored_other stored_other_delete; simp),
      rule keeps_statements keeps_delete)+

end

lemma safe_option: "safe P n \<Longrightarrow> (\<And>a. safe P (f a)) \<Longrightarrow> safe P (case x of None \<Rightarrow> n | Some a \<Rightarrow> f a)"
  by (cases x) simp_all

lemma safe_typed_intercept:
  assumes dep: "deployment E sch db"
  shows "safe (\<lambda>s. typed E sch (tabs (world_of s))) (Intercept_thread E hooks c)"
proof -
  note intros = safe_intros safe_option keeps_session keeps_query keeps_read_clock
    backend.keeps_typed_bans [OF deployment_backend [OF dep]]
  have ip: "safe (\<lambda>w. typed E sch (tabs w)) (isIPBanned_thread E a)" for a
    unfolding isIPBanned_thread_def by (intro intros)
  have "safe (\<lambda>w. typed E sch (tabs w)) (isUserBanned_thread E u a)" for u a
    unfolding isUserBanned_thread_def by (intro intros ip)
  then show ?thesis
    unfolding Intercept_thread_def by (intro safe_intros safe_option safe_within ip)
qed

lemma safe_typed_guarded:
  assumes dep: "deployment E sch db" and t: "guarded_thread E sc hooks c r = Some t"
  shows "safe (\<lambda>s. typed E sch (tabs (world_of s))) t"
proof -
  obtain u where u: "serve_thread E (client_metadata c) r = Some u"
    and t: "t = seq (Intercept_thread E hooks c) (\<lambda>b. if b \<and> \<not> sc then Done (Inr None) else answering u Some)"
    using t by (auto simp: guarded_thread_def)
  show ?thesis
    unfolding t answering_def
    by (intro safe_intros safe_typed_intercept [OF dep] safe_typed_serving [OF dep u])
qed

section \<open>Properties\<close>

definition guarding ::
  "env \<Rightarrow> bool \<Rightarrow> (hook_point list \<times> call \<times> rpc) list \<Rightarrow> (server, reply option) thread list \<Rightarrow> bool" where
  "guarding E sc calls ts \<longleftrightarrow> list_all2 (\<lambda>(hooks, c, r) t. guarded_thread E sc hooks c r = Some t) calls ts"

lemma guarding_nth:
  assumes "guarding E sc calls ts" and "i < length ts"
  obtains hooks c where "guarded_thread E sc hooks c (snd (snd (calls ! i))) = Some (ts ! i)"
  using assms by (auto simp: guarding_def list_all2_conv_all_nth split_beta)

lemma guarding_typed:
  assumes dep: "deployment E sch db" and d: "typed E sch (tabs (world_of s))"
    and ts: "guarding E sc calls ts" and run: "schedule is ts s = (ts', s')"
  shows "typed E sch (tabs (world_of s'))"
proof -
  have "safe (\<lambda>s. typed E sch (tabs (world_of s))) (ts ! i)" if "i < length ts" for i
    by (rule guarding_nth [OF ts that]) (rule safe_typed_guarded [OF dep])
  then have "list_all (safe (\<lambda>s. typed E sch (tabs (world_of s)))) ts"
    by (simp add: list_all_length)
  then show ?thesis
    using schedule_safe [where P = "\<lambda>s. typed E sch (tabs (world_of s))", OF d, of ts "is"] run by simp
qed

lemma guarding_promises:
  assumes dep: "deployment E sch db" and null: "no_row_null E" and s: "service_inv E sch s"
    and ts: "guarding E sc calls ts" and run: "schedule is ts s = (ts', s')"
  shows "service_inv E sch s'" and "evolves s s'"
    and "i < length ts \<Longrightarrow> outcome (ts' ! i) = Some (Inr (Some a)) \<Longrightarrow> promised (snd (snd (calls ! i))) (Inr a) s'"
proof -
  let ?Q = "\<lambda>i res s. \<forall>a. res = Inr (Some a) \<longrightarrow> promised (snd (snd (calls ! i))) (Inr a) s"
  have meets: "meets (service_inv E sch) evolves (?Q i) (ts ! i) s" if "i < length ts" for i
    by (rule guarding_nth [OF ts that]) (rule guarded_meets [OF dep null s])
  show "service_inv E sch s'" "evolves s s'"
    using service.schedule_meets [OF s meets run] by blast+
  show "i < length ts \<Longrightarrow> outcome (ts' ! i) = Some (Inr (Some a)) \<Longrightarrow> promised (snd (snd (calls ! i))) (Inr a) s'"
    using service.schedule_results [OF s meets run] by blast
qed

text \<open>A guarded request that is left alone: the interceptor, then the handler.\<close>

lemma guarded_alone:
  assumes dep: "deployment E sch db"
  shows "map_option run_thread (guarded_thread E sc hooks c r) = map_option (\<lambda>m s.
    case Intercept db hooks c (fresh_call (world_of s)) of
      (Inl e, i) \<Rightarrow> (Inl e, s\<lparr>world_of := iworld i\<rparr>)
    | (Inr _, i) \<Rightarrow> (if cancelled i \<and> \<not> sc then ret None else answer m Some) (s\<lparr>world_of := iworld i\<rparr>))
    (serve E db (client_metadata c) r)"
proof -
  have "run_thread (seq (Intercept_thread E hooks c) (\<lambda>b. if b \<and> \<not> sc then Done (Inr None) else answering t Some)) =
    (\<lambda>s. case Intercept db hooks c (fresh_call (world_of s)) of
      (Inl e, i) \<Rightarrow> (Inl e, s\<lparr>world_of := iworld i\<rparr>)
    | (Inr _, i) \<Rightarrow> (if cancelled i \<and> \<not> sc then ret None else answer (run_thread t) Some) (s\<lparr>world_of := iworld i\<rparr>))" for t
    by (rule ext) (simp add: run_seq bind_io_def Intercept_thread_run [OF dep] run_answering
        split: prod.split sum.split)
  note run = this
  show ?thesis
    unfolding guarded_thread_def request_alone_is_handler_eq [OF dep, symmetric] option.map_comp o_def run
    by (rule refl)
qed


text \<open>Two calls, of which the first comes from an address whose ban has expired.\<close>

definition checkpoint :: "hook_point list" where
  "checkpoint = [POST_RECV_INITIAL_METADATA, POST_RECV_MESSAGE]"

definition guests :: "(hook_point list \<times> call \<times> rpc) list" where
  "guests =
     [(checkpoint, ann_call\<lparr>peer := ''peer''\<rparr>, CreateUser_rpc \<lparr>cu_uname = ''bob'', cu_password = ''one'', cu_admin = 0\<rparr>),
      (checkpoint, ann_call, CreateUser_rpc \<lparr>cu_uname = ''eve'', cu_password = ''two'', cu_admin = 0\<rparr>)]"

definition guest_threads :: "(server, reply option) thread list" where
  "guest_threads = map (\<lambda>(hooks, c, r). the (guarded_thread pg0_dates False hooks c r)) guests"

definition guest_schedule :: "nat list" where
  "guest_schedule = concat (replicate 12 [0, 1])"

definition ip_server :: server where
  "ip_server = \<lparr>world_of = ip_world, channelMap = (\<lambda>_. None)\<rparr>"

lemma guests_guarding: "guarding pg0_dates False guests guest_threads"
  by (simp add: guarding_def guests_def guest_threads_def guarded_thread_def serve_thread_def)

lemma guests_run:
  "map outcome (fst (schedule guest_schedule guest_threads ip_server)) =
     [Some (Inr (Some (User_reply status_ok \<lparr>u_userid = 3, u_uname = ''bob'', u_token = [], u_admin = 0\<rparr>))),
      Some (Inr (Some (User_reply status_ok \<lparr>u_userid = 2, u_uname = ''eve'', u_token = [], u_admin = 0\<rparr>)))]"
  by code_simp


end
