(* ===== verification/Stability.thy ===== *)
theory Stability
  imports Reading Listings
begin

text \<open>
  Readers among writers: what a request has read of a channel while others were writing to it stays
  a part, in the same order, of everything that is read later.
\<close>

section \<open>A history only grows\<close>

lemma sort_key_subseq:
  assumes sub: "set xs \<subseteq> set ys" and inj: "inj_on k (set ys)" and dist: "distinct xs" "distinct ys"
  shows "subseq (sort_key k xs) (sort_key k ys)"
proof -
  have "mset (filter (\<lambda>y. y \<in> set xs) ys) = mset xs"
    using sub dist by (subst set_eq_iff_mset_eq_distinct [symmetric]) auto
  then have "sort_key k (filter (\<lambda>y. y \<in> set xs) ys) = sort_key k xs"
    by (rule sort_key_unique) (use inj in \<open>auto intro: inj_on_subset\<close>)
  then show ?thesis
    using subseq_filter_left [of "\<lambda>y. y \<in> set xs" "sort_key k ys"] by (simp only: filter_sort)
qed

context backend
begin

lemma message_join_distinct:
  assumes inv: "server_inv E sch d"
  shows "distinct (message_join d ch)"
proof -
  have "message_join d ch = filter (row_satisfies [(2, IntV ch)]) (joined_users d Messages 1)"
    by (simp add: message_join_def joined_users_def numeral_eq_Suc)
  then show ?thesis
    using joined_users_distinct [OF inv, of 1 Messages] by (simp add: distinct_map)
qed

lemma history_grows:
  assumes inv: "server_inv E sch d" "server_inv E sch d'" and grow: "grows d d'"
  shows "subseq (history d ch) (history d' ch)"
  unfolding history_def
proof (rule sort_key_subseq)
  have "set (stored d t) \<subseteq> set (stored d' t)" if "t \<in> permanent" for t
    using grows_at [OF grow that] by (auto simp: prefix_def)
  then show "set (message_join d ch) \<subseteq> set (message_join d' ch)"
    unfolding subset_iff message_join_mem by (auto simp: permanent_def)
qed (use message_join_inj [OF inv(2)] message_join_distinct [OF inv(1)] message_join_distinct [OF inv(2)] in auto)

end

text \<open>The messages that a reading of the database reports.\<close>

definition readings :: "env \<Rightarrow> db \<Rightarrow> int \<Rightarrow> message list" where
  "readings E d ch = map (\<lambda>r. projr (read_message E message_header ch r)) (history d ch)"

lemma readings_grow:
  assumes dep: "deployment E sch db" and inv: "server_inv E sch d" "server_inv E sch d'" and grow: "grows d d'"
  shows "subseq (readings E d ch) (readings E d' ch)"
  unfolding readings_def
  by (rule subseq_map, rule backend.history_grows [OF deployment_backend [OF dep] inv grow])

lemma read_all_projr: "read_all g rs = (Inr u, out) \<Longrightarrow> out = map (\<lambda>r. projr (g r)) rs"
proof (induction rs arbitrary: out)
  case (Cons r rs)
  then show ?case by (cases "read_all g rs") (auto simp: Let_def split: sum.splits)
qed simp

section \<open>A reader\<close>

definition has_read :: "env \<Rightarrow> int \<Rightarrow> message list \<Rightarrow> server \<Rightarrow> bool" where
  "has_read E ch ms s \<longleftrightarrow> subseq ms (readings E (tabs (world_of s)) ch)"

lemma has_read_later:
  assumes dep: "deployment E sch db" and inv: "service_inv E sch s" "service_inv E sch s'" and le: "evolves s s'"
    and read: "has_read E ch ms s"
  shows "has_read E ch ms s'"
  using read readings_grow [OF dep service_inv_db [OF inv(1)] service_inv_db [OF inv(2)] evolves_db [OF le]]
  unfolding has_read_def by (rule subseq_order.trans)

lemma query_history_meets:
  assumes dep: "deployment E sch db"
  shows "meets (service_inv E sch) evolves (\<lambda>r s. \<forall>R. r = Inr R \<longrightarrow>
      (\<exists>d. server_inv E sch d \<and> grows d (tabs (world_of s)) \<and> R = (message_header, history d ch)))
    (atomic (on_db (pg_getChannelMessages E ch))) s"
proof (rule service.meets_atomic, intro conjI allI impI)
  fix s' r s'' assume s': "service_inv E sch s'" and run: "on_db (pg_getChannelMessages E ch) s' = (r, s'')"
  let ?w = "world_of s'"
  have res: "r = Inr (message_header, history (tabs ?w) ch)" "s'' = s'\<lparr>world_of := ?w\<lparr>ticks := Suc (ticks ?w)\<rparr>\<rparr>"
    using run backend.getChannelMessages_run [OF deployment_backend [OF dep] service_inv_db [OF s'], of ch]
    by (auto simp: on_db_def)
  note world = service_inv_world [OF s', of "?w\<lparr>ticks := Suc (ticks ?w)\<rparr>"]
  show "service_inv E sch s''" "evolves s' s''"
    unfolding res using world service_inv_db [OF s'] by simp_all
  fix s3 R assume "service_inv E sch s3" "evolves s'' s3" "r = Inr R"
  then show "\<exists>d. server_inv E sch d \<and> grows d (tabs (world_of s3)) \<and> R = (message_header, history d ch)"
    using service_inv_db [OF s'] evolves_db [of s'' s3] by (intro exI [of _ "tabs ?w"]) (simp add: res)
qed

lemma reader_meets:
  assumes dep: "deployment E sch db" and s: "service_inv E sch s"
  shows "meets (service_inv E sch) evolves (\<lambda>r s. \<forall>ms. r = Inr (status_ok, ms) \<longrightarrow> has_read E ch ms s)
    (reading_thread E (pg_getChannelMessages E ch) (\<lambda>h. read_message E h ch)) s"
  unfolding reading_thread_def
proof (rule service.meets_attempt [OF _ s])
  let ?Q = "\<lambda>r s. \<forall>ms. r = Inr (status_ok, ms) \<longrightarrow> has_read E ch ms s"
  show "meets (service_inv E sch) evolves ?Q (seq (atomic (on_db (getSociSession E))) (\<lambda>_.
      seq (atomic (on_db (pg_getChannelMessages E ch))) (\<lambda>R. case read_all (read_message E (fst R) ch) (snd R) of
          (Inr _, out) \<Rightarrow> Done (Inr (status_ok, out))
        | (Inl e, out) \<Rightarrow> Done (if e = Undefined then Inl Undefined else Inr (Status INTERNAL [], out))))) s"
  proof (rule service.meets_seq [OF free_db(1) [OF dep, rule_format, OF s] s])
    fix t assume t: "service_inv E sch t"
    show "meets (service_inv E sch) evolves ?Q (seq (atomic (on_db (pg_getChannelMessages E ch)))
      (\<lambda>R. case read_all (read_message E (fst R) ch) (snd R) of
          (Inr _, out) \<Rightarrow> Done (Inr (status_ok, out))
        | (Inl e, out) \<Rightarrow> Done (if e = Undefined then Inl Undefined else Inr (Status INTERNAL [], out)))) t"
    proof (rule service.meets_seq [OF query_history_meets [OF dep] t])
      fix R u assume u: "service_inv E sch u"
        and "\<forall>R'. Inr R = Inr R' \<longrightarrow>
          (\<exists>d. server_inv E sch d \<and> grows d (tabs (world_of u)) \<and> R' = (message_header, history d ch))"
      then obtain d where d: "server_inv E sch d" "grows d (tabs (world_of u))" "R = (message_header, history d ch)"
        by blast
      obtain res out where ra: "read_all (read_message E (fst R) ch) (snd R) = (res, out)" by (rule prod.exhaust)
      have "has_read E ch out v" if res: "res = Inr ()" and v: "service_inv E sch v" "evolves u v" for v
      proof (rule has_read_later [OF dep u v])
        have "out = readings E d ch" using read_all_projr [OF ra [unfolded res]] by (simp add: d(3) readings_def)
        then show "has_read E ch out u"
          using readings_grow [OF dep d(1) service_inv_db [OF u] d(2)] by (simp add: has_read_def)
      qed
      then show "meets (service_inv E sch) evolves ?Q (case read_all (read_message E (fst R) ch) (snd R) of
          (Inr _, out) \<Rightarrow> Done (Inr (status_ok, out))
        | (Inl e, out) \<Rightarrow> Done (if e = Undefined then Inl Undefined else Inr (Status INTERNAL [], out))) u"
        by (cases res) (simp_all add: ra)
    qed simp
  qed simp
qed auto

lemma GetMessages_meets:
  assumes dep: "deployment E sch db" and s: "service_inv E sch s"
    and t: "serve_thread E ctx (GetWrongthinkMessages_rpc q) = Some t"
  shows "meets (service_inv E sch) evolves
    (\<lambda>r s. \<forall>ms. r = Inr (Messages_reply status_ok ms) \<longrightarrow> has_read E (gm_channelid q) ms s) t s"
  using t
  by (auto simp: serve_thread_def intro!: meets_answering [OF reader_meets [OF dep s] s]
      elim: has_read_later [OF dep])

lemma later_reading:
  fixes q :: get_messages_request
  assumes dep: "deployment E sch db" and s: "service_inv E sch s"
    and read: "GetWrongthinkMessages E db ctx q (s, []) = (Inr status_ok, (s', ms))"
  shows "ms = readings E (tabs (world_of s)) (gm_channelid q)"
proof (cases "session_up E (sessions (world_of s))")
  case True
  obtain res out where ra: "read_all (read_message E message_header (gm_channelid q))
      (history (tabs (world_of s)) (gm_channelid q)) = (res, out)" by (rule prod.exhaust)
  with read db_contract.GetMessages_run [OF deployment_contract [OF dep] service_inv_db [OF s] True, of q]
  have "res = Inr ()" "ms = out"
    by (auto simp: GetWrongthinkMessages_def split: sum.splits if_splits)
  with ra show ?thesis unfolding readings_def by (simp add: read_all_projr)
next
  case False
  with read show ?thesis
    by (simp add: GetWrongthinkMessages_def GetWrongthinkMessagesImpl_def try_catch_def bind_io_def
        on_server_def on_db_def session_fails)
qed

section \<open>Properties\<close>


text \<open>A reader between two messages.\<close>

definition audience :: "(metadata \<times> rpc) list" where
  "audience = map (Pair [])
     [SendWrongthinkMessage_rpc [hello, hello\<lparr>msg_text := ''again''\<rparr>], GetWrongthinkMessages_rpc get_all]"

definition audience_threads :: "(server, reply) thread list" where
  "audience_threads = map (\<lambda>(ctx, r). the (serve_thread pg0 ctx r)) audience"

definition audience_schedule :: "nat list" where
  "audience_schedule = replicate 7 0 @ [1, 1] @ replicate 10 0"

lemma audience_serving: "serving pg0 audience audience_threads"
  by (simp add: serving_def audience_def audience_threads_def serve_thread_def)

lemma audience_run:
  "map outcome (fst (schedule audience_schedule audience_threads chan_server)) =
     [Some (Inr (Meta_reply status_ok)),
      Some (Inr (Messages_reply status_ok [hello\<lparr>msg_uname := ''ann'', msg_date := 1600000018, msg_messageid := 1\<rparr>]))]"
  by code_simp


end
