(* ===== verification/BanRace.thy ===== *)
theory BanRace
  imports Interleaving Bans
begin

text \<open>
  Two administrators ban one user at the same time. \<^verbatim>\<open>banUser\<close> first asks whether the user
  has a ban and then updates or inserts one, in separate transactions, and the table does not demand
  that user ids differ: both calls can insert.
\<close>

context backend
begin

lemma both_find_no_ban:
  assumes inv: "inv_world w" and up: "session_up E (sessions w)" "session_up E (Suc (sessions w))"
    and u: "directory (tabs w) u = Some (uid, k, a)" "int32 uid" and none: "bans (tabs w) uid = None"
    and tb: "tabs w BannedUsers = Some tb" and room: "seqno tb + 2 \<le> 2147483647"
    and span: "ban_span n = Inr p" "ban_span m = Inr q"
    and e: "accepts_expiry (clock E (ticks w + 4) + p)" "accepts_expiry (clock E (ticks w + 5) + q)"
  obtains w' where "schedule [0, 1, 0, 1, 0, 1, 0, 1]
      (map (db_thread E) [BanUser_call u n, BanUser_call u m]) w = ([Done (Inr None), Done (Inr None)], w')"
    and "map (\<lambda>r. r ! 2) (filter (\<lambda>r. r ! 1 = IntV uid) (stored (tabs w') BannedUsers)) =
      [IntV (clock E (ticks w + 4) + p), IntV (clock E (ticks w + 5) + q)]"
proof -
  let ?d = "tabs w"
  define i where "i = next_id tb 0"
  define tb1 where "tb1 = with_row tb [IntV i, IntV uid, IntV (clock E (ticks w + 4) + p)]"
  define d1 where "d1 = ?d(BannedUsers \<mapsto> tb1)"
  define j where "j = next_id tb1 0"
  define tb2 where "tb2 = with_row tb1 [IntV j, IntV uid, IntV (clock E (ticks w + 5) + q)]"
  define d2 where "d2 = d1(BannedUsers \<mapsto> tb2)"
  have tb1: "d1 BannedUsers = Some tb1" by (simp add: d1_def)
  obtain R where R: "select_from E Users [(Col ''uname'', TextV u)] ?d = Inr R" "got_data R"
    "into_int E R ''user_id'' 0 = Inr uid" by (rule read_uid [OF inv u(1)])
  have "filter (row_satisfies [(1, IntV uid)]) (stored ?d BannedUsers) = []"
    using ban_rows [OF inv] none by (rule iffD2)
  then have B: "select_from E BannedUsers [(Col ''user_id'', IntV uid)] ?d = Inr (header_of BannedUsers, [])"
    using select_from_eq [OF server_inv_installed [OF inv] resolve_bans] by (simp add: scan_Nil_iff)
  have key: "IntV uid \<in> set (primary_values ?d Users)" by (rule user_key_stored [OF inv u(1)])
  have "int32 i"
    using next_id_bounds(1,2) [of tb 0] server_inv_table(1,2) [OF inv tb] first_key(2,3) [of BannedUsers] room
    by (simp add: int32_def i_def)
  then have ins1: "insert_into E BannedUsers [(''user_id'', Val (IntV uid)), (''expire'', NowPlus p)]
      (clock E (ticks w + 4)) ?d = (Inr (), d1)"
    using insert_ban [OF inv tb key u(2) e(1)] by (simp add: d1_def tb1_def i_def)
  have inv1: "server_inv E sch d1"
    using insert_into_sound [OF inv suit_ban(1), of uid p "clock E (ticks w + 4)"] ins1 by simp
  have "int32 j"
    using next_id_bounds(1,2) [of tb1 0] server_inv_table(1,2) [OF inv1 tb1] first_key(2,3) [of BannedUsers] room
    by (simp add: int32_def j_def) (simp add: tb1_def)
  moreover have "IntV uid \<in> set (primary_values d1 Users)" using key by (simp add: primary_values_def d1_def)
  ultimately have ins2: "insert_into E BannedUsers [(''user_id'', Val (IntV uid)), (''expire'', NowPlus q)]
      (clock E (ticks w + 5)) d1 = (Inr (), d2)"
    using insert_ban [OF inv1 tb1 _ u(2) e(2)] by (simp add: d2_def tb2_def j_def)
  have no_data: "\<not> got_data (h, [])" for h by (simp add: got_data_def)
  have "schedule [0, 1, 0, 1, 0, 1, 0, 1]
      (map (db_thread E) [BanUser_call u n, BanUser_call u m]) w = ([Done (Inr None), Done (Inr None)],
       w\<lparr>sessions := Suc (Suc (sessions w)), tabs := d2, ticks := ticks w + 6\<rparr>)"
    using up ins1 ins2
    by (simp add: banUser_thread_def atomic_def session_ok query_def exec_def R B no_data span numeral_eq_Suc)
  moreover have "filter (\<lambda>r. r ! 1 = IntV uid) (rows tb) = []"
    using none tb by (simp add: bans_None stored_def filter_empty_conv)
  then have "map (\<lambda>r. r ! 2) (filter (\<lambda>r. r ! 1 = IntV uid) (stored d2 BannedUsers)) =
      [IntV (clock E (ticks w + 4) + p), IntV (clock E (ticks w + 5) + q)]"
    by (simp add: d2_def tb2_def tb1_def)
  ultimately show thesis using that by simp
qed

end

section \<open>Properties\<close>

text \<open>C19 (concurrent bans). Two concurrent bans of a user who has none can both find no ban and both
  insert one: the user then has two rows with different expiry times, and which of them a later check
  reads is up to the database.\<close>

theorem concurrent_bans_duplicate:
  assumes dep: "deployment E sch db" and inv: "server_inv E sch (tabs w)"
    and up: "session_up E (sessions w)" "session_up E (Suc (sessions w))"
    and u: "directory (tabs w) u = Some (uid, k, a)" "int32 uid" and none: "bans (tabs w) uid = None"
    and tb: "tabs w BannedUsers = Some tb" and room: "seqno tb + 2 \<le> 2147483647"
    and span: "ban_span n = Inr p" "ban_span m = Inr q"
    and e: "coerce E (ctype (sch BannedUsers ! 2)) (IntV (clock E (ticks w + 4) + p)) = Some (IntV (clock E (ticks w + 4) + p))"
      "coerce E (ctype (sch BannedUsers ! 2)) (IntV (clock E (ticks w + 5) + q)) = Some (IntV (clock E (ticks w + 5) + q))"
  shows "\<exists>is. let (ts, w') = schedule is (map (db_thread E) [BanUser_call u n, BanUser_call u m]) w in
    ts = [Done (Inr None), Done (Inr None)] \<and>
    map (\<lambda>r. r ! 2) (filter (\<lambda>r. r ! 1 = IntV uid) (stored (tabs w') BannedUsers)) =
      [IntV (clock E (ticks w + 4) + p), IntV (clock E (ticks w + 5) + q)]"
proof -
  obtain w' where "schedule [0, 1, 0, 1, 0, 1, 0, 1]
      (map (db_thread E) [BanUser_call u n, BanUser_call u m]) w = ([Done (Inr None), Done (Inr None)], w')"
    and "map (\<lambda>r. r ! 2) (filter (\<lambda>r. r ! 1 = IntV uid) (stored (tabs w') BannedUsers)) =
      [IntV (clock E (ticks w + 4) + p), IntV (clock E (ticks w + 5) + q)]"
    by (rule backend.both_find_no_ban [OF deployment_backend [OF dep] inv up u none tb room span e])
  then show ?thesis by (intro exI [of _ "[0, 1, 0, 1, 0, 1, 0, 1]"]) simp
qed

theorem concurrent_bans_duplicate_witness:
  "\<exists>is. let (ts, w') = schedule is (map (db_thread pg0) [BanUser_call ''ann'' 1, BanUser_call ''ann'' 2]) ann_world in
    ts = [Done (Inr None), Done (Inr None)] \<and>
    map (\<lambda>r. r ! 2) (filter (\<lambda>r. r ! 1 = IntV 1) (stored (tabs w') BannedUsers)) =
      [IntV (clock pg0 (ticks ann_world + 4) + 86400000), IntV (clock pg0 (ticks ann_world + 5) + 172800000)]"
proof (rule concurrent_bans_duplicate [OF pg0_deployment ann_inv])
  show "directory (tabs ann_world) ''ann'' = Some (1, ''pw'', True)" by (simp add: ann_directory)
qed (code_simp | simp)+

end
