(* ===== verification/Places.thy ===== *)
theory Places
  imports Contract
begin

text \<open>
  Creating channels and communities through the RPC handlers: which requests are accepted, and what
  they leave in the database.
\<close>

text \<open>A request whose values fit the columns of a new row of \<open>tb\<close>.\<close>

definition fits_row :: "table \<Rightarrow> string \<Rightarrow> int list \<Rightarrow> int \<Rightarrow> bool" where
  "fits_row tb n ids flag \<longleftrightarrow> int32 (next_id tb 0) \<and> utf8_length n \<le> 100 \<and> list_all int32 ids \<and>
     (flag = 0 \<or> flag = 1)"

text \<open>Requests that the constraints of the table turn down.\<close>

definition refused :: "env \<Rightarrow> db \<Rightarrow> tabname \<Rightarrow> string \<Rightarrow> (tabname \<times> int) list \<Rightarrow> bool" where
  "refused E d t n ps \<longleftrightarrow> name_taken d t n \<or> fk_enforced E \<and> \<not> refs_present d ps"

section \<open>Properties\<close>

text \<open>C29 (new channels). \<^verbatim>\<open>CreateWrongthinkChannel\<close> answers INTERNAL and changes no
  stored entry when the name is taken or, on an engine that checks foreign keys, when the community
  or the administrator does not exist. Otherwise it answers OK with an id that no channel had, and
  adds exactly one channel, with the requested values, under this id. No channel becomes live.\<close>

theorem CreateWrongthinkChannel_creates:
  fixes req :: create_channel_request
  defines "row \<equiv> [TextV (cc_name req), IntV (cc_communityid req), IntV (cc_adminid req), IntV (cc_anonymous req)]"
  assumes dep: "deployment E sch db" and inv: "server_inv E sch (tabs (world_of s))"
    and up: "session_up E (sessions (world_of s))" and tb: "tabs (world_of s) Channels = Some tb"
    and fits: "fits_row tb (cc_name req) [cc_communityid req, cc_adminid req] (cc_anonymous req)"
  shows "\<exists>s'. CreateWrongthinkChannel db req response s =
      (Inr (if refused E (tabs (world_of s)) Channels (cc_name req)
              [(Communities, cc_communityid req), (Users, cc_adminid req)]
            then (Status INTERNAL [], response) else (status_ok, response\<lparr>ch_id := next_id tb 0\<rparr>)), s') \<and>
    entry_at (tabs (world_of s')) Channels =
      (if refused E (tabs (world_of s)) Channels (cc_name req)
         [(Communities, cc_communityid req), (Users, cc_adminid req)]
       then entry_at (tabs (world_of s)) Channels
       else (entry_at (tabs (world_of s)) Channels)(next_id tb 0 \<mapsto> row)) \<and>
    entry_at (tabs (world_of s)) Channels (next_id tb 0) = None \<and>
    (\<forall>t. t \<noteq> Channels \<longrightarrow> tabs (world_of s') t = tabs (world_of s) t) \<and> channelMap s' = channelMap s"
proof -
  note b = deployment_backend [OF dep]
  have fresh: "entry_at (tabs (world_of s)) Channels (next_id tb 0) = None"
    by (rule backend.fresh_entry [OF b inv tb])
  note run = backend.createChannel_run [OF b inv up tb, of "cc_name req" "cc_communityid req"
      "cc_adminid req" "cc_anonymous req"]
  show ?thesis
    using run fits fresh entry_at_snoc [of "tabs (world_of s)" Channels tb, OF tb fresh]
      entry_at_bump [of "tabs (world_of s)" Channels tb, OF tb]
    by (auto simp: CreateWrongthinkChannel_def try_catch_def bind_io_def on_db_def fits_row_def refused_def
        deployment_methods [OF dep] row_def fun_upd_other simp del: fun_upd_apply)
qed

definition ann_server :: server where
  "ann_server = \<lparr>world_of = ann_world, channelMap = (\<lambda>_. None)\<rparr>"

text \<open>There is no community yet, so a channel is turned down and a community accepted.\<close>

lemma ann_places:
  "tabs ann_world Channels = Some \<lparr>cols = pg_schema Channels, rows = [], seqno = 0\<rparr>"
  "tabs ann_world Communities = Some \<lparr>cols = pg_schema Communities, rows = [], seqno = 0\<rparr>"
  "refused pg0 (tabs ann_world) Channels ''c1'' [(Communities, 1), (Users, 1)]"
  "\<not> refused pg0 (tabs ann_world) Communities ''com'' [(Users, 1)]"
  "utf8_length ''com'' \<le> 100" "utf8_length ''c1'' \<le> 100"
  by code_simp+

lemmas place_simps = ann_server_def ann_inv ann_places fits_row_def next_id_def plain_def int32_def

theorem CreateWrongthinkChannel_creates_witness:
  "\<exists>s'. CreateWrongthinkChannel (pg_db pg0)
      \<lparr>cc_name = ''c1'', cc_communityid = 1, cc_adminid = 1, cc_anonymous = 1\<rparr> empty_channel ann_server =
      (Inr (Status INTERNAL [], empty_channel), s') \<and>
    entry_at (tabs (world_of s')) Channels = entry_at (tabs ann_world) Channels"
  using CreateWrongthinkChannel_creates [OF pg0_deployment, of ann_server _
      "\<lparr>cc_name = ''c1'', cc_communityid = 1, cc_adminid = 1, cc_anonymous = 1\<rparr>" empty_channel]
  by (fastforce simp: place_simps)

text \<open>C30 (new communities). The same of \<^verbatim>\<open>CreateWrongthinkCommunity\<close>, which asks for
  a new name and an existing administrator.\<close>

theorem CreateWrongthinkCommunity_creates:
  fixes req :: create_community_request
  defines "row \<equiv> [TextV (co_name req), IntV (co_adminid req), IntV (co_public req)]"
  assumes dep: "deployment E sch db" and inv: "server_inv E sch (tabs (world_of s))"
    and up: "session_up E (sessions (world_of s))" and tb: "tabs (world_of s) Communities = Some tb"
    and fits: "fits_row tb (co_name req) [co_adminid req] (co_public req)"
  shows "\<exists>s'. CreateWrongthinkCommunity db req response s =
      (Inr (if refused E (tabs (world_of s)) Communities (co_name req) [(Users, co_adminid req)]
            then (Status INTERNAL [], response) else (status_ok, response\<lparr>com_id := next_id tb 0\<rparr>)), s') \<and>
    entry_at (tabs (world_of s')) Communities =
      (if refused E (tabs (world_of s)) Communities (co_name req) [(Users, co_adminid req)]
       then entry_at (tabs (world_of s)) Communities
       else (entry_at (tabs (world_of s)) Communities)(next_id tb 0 \<mapsto> row)) \<and>
    entry_at (tabs (world_of s)) Communities (next_id tb 0) = None \<and>
    (\<forall>t. t \<noteq> Communities \<longrightarrow> tabs (world_of s') t = tabs (world_of s) t) \<and> channelMap s' = channelMap s"
proof -
  note b = deployment_backend [OF dep]
  have fresh: "entry_at (tabs (world_of s)) Communities (next_id tb 0) = None"
    by (rule backend.fresh_entry [OF b inv tb])
  note run = backend.createCommunity_run [OF b inv up tb, of "co_name req" "co_adminid req" "co_public req"]
  show ?thesis
    using run fits fresh entry_at_snoc [of "tabs (world_of s)" Communities tb, OF tb fresh]
      entry_at_bump [of "tabs (world_of s)" Communities tb, OF tb]
    by (auto simp: CreateWrongthinkCommunity_def try_catch_def bind_io_def on_db_def fits_row_def refused_def
        deployment_methods [OF dep] row_def fun_upd_other simp del: fun_upd_apply)
qed

theorem CreateWrongthinkCommunity_creates_witness:
  "\<exists>s'. CreateWrongthinkCommunity (pg_db pg0)
      \<lparr>co_name = ''com'', co_adminid = 1, co_public = 1\<rparr> empty_community ann_server =
      (Inr (status_ok, empty_community\<lparr>com_id := 1\<rparr>), s') \<and>
    entry_at (tabs (world_of s')) Communities =
      (entry_at (tabs ann_world) Communities)(1 \<mapsto> [TextV ''com'', IntV 1, IntV 1])"
  using CreateWrongthinkCommunity_creates [OF pg0_deployment, of ann_server _
      "\<lparr>co_name = ''com'', co_adminid = 1, co_public = 1\<rparr>" empty_community]
  by (fastforce simp: place_simps)

end
