(* ===== verification/Server.thy ===== *)
theory Server
  imports Interceptor
begin

text \<open>
  \<^verbatim>\<open>wrongthink.cpp\<close>: how the server starts. The command line selects the back end and
  whether the tables are dropped first; any exception up to then ends the process. The server's
  objects share one database object and one logger.
\<close>

section \<open>Database objects\<close>

text \<open>What the constructors of \<^verbatim>\<open>DBInterface\<close>, \<^verbatim>\<open>DBPostgres\<close> and
  \<^verbatim>\<open>SQLiteDB\<close> store: the SOCI back end and the connection string with which sessions are
  opened.\<close>

datatype backend_factory = soci_postgresql | soci_sqlite3

record connection =
  dbType :: backend_factory
  dbConnectString :: string

definition DBInterface_of :: "backend_factory \<Rightarrow> string \<Rightarrow> connection" where
  "DBInterface_of back conString = \<lparr>dbType = back, dbConnectString = conString\<rparr>"

definition DBPostgres_of :: "string \<Rightarrow> string \<Rightarrow> string \<Rightarrow> connection" where
  "DBPostgres_of user pass dbName = DBInterface_of soci_postgresql
     (''host=localhost dbname='' @ dbName @ '' user='' @ user @ '' password='' @ pass)"

definition DBPostgres_with :: "backend_factory \<Rightarrow> string \<Rightarrow> connection" where
  "DBPostgres_with back conString = DBInterface_of back conString"

definition SQLiteDB_of :: "string \<Rightarrow> connection" where
  "SQLiteDB_of filename = DBPostgres_with soci_sqlite3 filename"

text \<open>The object that \<^verbatim>\<open>main\<close> creates.\<close>

definition main_connection :: connection where
  "main_connection = DBPostgres_of ''wrongthink'' ''test'' ''wrongthink''"

section \<open>The process\<close>

text \<open>The logger writes to the console and to a file that each start empties.\<close>

definition coinfigureLog :: logger where
  "coinfigureLog =
     (let console_sink = stdout_color_sink trace_level ''[%H:%M:%S %z] [wrongthink] [%^%l%$] %v'';
          file_sink = basic_file_sink ''logs/wrongthink.txt'' True trace_level
      in \<lparr>logger_name = ''multi_sink'', sinks = [console_sink, file_sink]\<rparr>)"

text \<open>What \<^verbatim>\<open>WrongthinkServiceImpl\<close>'s constructor stores; its map of live channels is empty.\<close>

record service_object =
  service_db :: db_interface
  service_logger :: logger

definition WrongthinkServiceImpl_of :: "db_interface \<Rightarrow> logger \<Rightarrow> service_object" where
  "WrongthinkServiceImpl_of db l = \<lparr>service_db = db, service_logger = l\<rparr>"

text \<open>What \<^verbatim>\<open>RunServer\<close> sets up before it waits for the server to shut down.\<close>

record server_config =
  listening_port :: string
  creators :: "interceptor_factory list"
  registered_service :: service_object
  auth_metadata_processor :: auth_processor
  health_check :: bool

definition RunServer :: "db_interface \<Rightarrow> logger \<Rightarrow> server_config" where
  "RunServer db l = \<lparr>listening_port = ''0.0.0.0:50051'', creators = [LoggingInterceptorFactory_of db l],
     registered_service = WrongthinkServiceImpl_of db l,
     auth_metadata_processor = \<lparr>is_blocking = True\<rparr>, health_check = False\<rparr>"

datatype main_outcome = Exit int | Serving server_config

text \<open>The handler of \<^verbatim>\<open>SIGINT\<close> ends the process with the number of the signal.\<close>

definition sigHandler :: "int \<Rightarrow> main_outcome" where
  "sigHandler num = Exit num"

text \<open>\<open>engine c\<close> is the database engine behind the connection \<open>c\<close>, with SOCI in front of it.
  \<open>args\<close> are the arguments after the program's name, so \<^verbatim>\<open>argc\<close> is one more than
  their number.\<close>

text \<open>\<open>Inl\<close>: the process ends with this status; \<open>Inr\<close>: the database object to serve on.\<close>

definition main_setup :: "(connection \<Rightarrow> env) \<Rightarrow> string list \<Rightarrow> (world, int + db_interface) io" where
  "main_setup engine args =
     (if args = [''sqlite''] then ret (Inl 1)
      else (let db = pg_db (engine main_connection) in
        bind_io (if args = [''clear''] then clear db else ret ()) (\<lambda>_.
        bind_io (validate db) (\<lambda>_. ret (Inr db)))))"

definition main :: "(connection \<Rightarrow> env) \<Rightarrow> string list \<Rightarrow> (world, main_outcome) io" where
  "main engine args =
     (let l = coinfigureLog in
      bind_io (try_catch (main_setup engine args) (ret (Inl 0)))
        (\<lambda>r. case r of Inl status \<Rightarrow> ret (Exit status) | Inr db \<Rightarrow> ret (Serving (RunServer db l))))"

end
