(* ===== verification/Listeners.thy ===== *)
theory Listeners
  imports Channel
begin

text \<open>
  \<^verbatim>\<open>SynchronizedChannel\<close> under concurrency: any number of threads, each a handler that
  appends a message (\<^verbatim>\<open>appendMessage\<close>) or one that loops over
  \<^verbatim>\<open>waitMessage\<close> and \<^verbatim>\<open>Write\<close> (\<^verbatim>\<open>ListenWrongthinkMessagesImpl\<close>). A step
  is one statement of one thread. The mutex and the condition variable behave as the C++
  standard says: \<^verbatim>\<open>wait\<close> releases the mutex and blocks in one step,
  \<^verbatim>\<open>notify_all\<close> wakes every blocked thread, a blocked thread may also wake up
  spuriously, and a woken thread has to take the mutex again before \<^verbatim>\<open>wait\<close> returns.
\<close>

section \<open>Threads and steps\<close>

datatype pc =
    Idle
  | AppendLock message
  | AppendPush message
  | AppendStore message
  | AppendUnlock
  | AppendNotify
  | ListenLock
  | ListenWait
  | ListenBlocked
  | ListenWake
  | ListenRead
  | ListenWrite message

record bus =
  owner :: "nat option"
  chan :: sync_channel
  pcs :: "nat \<Rightarrow> pc"
  sent :: "nat \<Rightarrow> message list"

definition init_bus :: "sync_channel \<Rightarrow> bus" where
  "init_bus c = \<lparr>owner = None, chan = c, pcs = (\<lambda>_. Idle), sent = (\<lambda>_. [])\<rparr>"

text \<open>\<open>CallAppend\<close> and \<open>CallListen\<close>: a handler starts; \<open>Advance i\<close>: thread \<open>i\<close> executes its
  next statement; \<open>Spurious i\<close>: a spurious wakeup.\<close>

datatype event = CallAppend nat message | CallListen nat | Advance nat | Spurious nat

abbreviation goto :: "bus \<Rightarrow> nat \<Rightarrow> pc \<Rightarrow> bus" where
  "goto s i p \<equiv> s\<lparr>pcs := (pcs s)(i := p)\<rparr>"

definition wake_all :: "(nat \<Rightarrow> pc) \<Rightarrow> nat \<Rightarrow> pc" where
  "wake_all p = (\<lambda>j. if p j = ListenBlocked then ListenWake else p j)"

inductive bus_step :: "bus \<Rightarrow> event \<Rightarrow> bus \<Rightarrow> bool" where
  call_append: "pcs s i = Idle \<Longrightarrow> bus_step s (CallAppend i m) (goto s i (AppendLock m))"
| append_lock: "pcs s i = AppendLock m \<Longrightarrow> owner s = None \<Longrightarrow>
     bus_step s (Advance i) ((goto s i (AppendPush m))\<lparr>owner := Some i\<rparr>)"
| append_push: "pcs s i = AppendPush m \<Longrightarrow>
     bus_step s (Advance i)
       ((goto s i (AppendStore m))\<lparr>chan := (chan s)\<lparr>msgVector := msgVector (chan s) @ [m]\<rparr>\<rparr>)"
| append_store: "pcs s i = AppendStore m \<Longrightarrow>
     bus_step s (Advance i) ((goto s i AppendUnlock)\<lparr>chan := (chan s)\<lparr>last_message := m\<rparr>\<rparr>)"
| append_unlock: "pcs s i = AppendUnlock \<Longrightarrow>
     bus_step s (Advance i) ((goto s i AppendNotify)\<lparr>owner := None\<rparr>)"
| append_notify: "pcs s i = AppendNotify \<Longrightarrow>
     bus_step s (Advance i) (s\<lparr>pcs := (wake_all (pcs s))(i := Idle)\<rparr>)"
| call_listen: "pcs s i = Idle \<Longrightarrow> bus_step s (CallListen i) (goto s i ListenLock)"
| listen_lock: "pcs s i = ListenLock \<Longrightarrow> owner s = None \<Longrightarrow>
     bus_step s (Advance i) ((goto s i ListenWait)\<lparr>owner := Some i\<rparr>)"
| listen_wait: "pcs s i = ListenWait \<Longrightarrow>
     bus_step s (Advance i) ((goto s i ListenBlocked)\<lparr>owner := None\<rparr>)"
| spurious: "pcs s i = ListenBlocked \<Longrightarrow> bus_step s (Spurious i) (goto s i ListenWake)"
| listen_wake: "pcs s i = ListenWake \<Longrightarrow> owner s = None \<Longrightarrow>
     bus_step s (Advance i) ((goto s i ListenRead)\<lparr>owner := Some i\<rparr>)"
| listen_read: "pcs s i = ListenRead \<Longrightarrow>
     bus_step s (Advance i) ((goto s i (ListenWrite (last_message (chan s))))\<lparr>owner := None\<rparr>)"
| listen_write: "pcs s i = ListenWrite m \<Longrightarrow>
     bus_step s (Advance i) ((goto s i ListenLock)\<lparr>sent := (sent s)(i := sent s i @ [m])\<rparr>)"

inductive bus_reachable :: "bus \<Rightarrow> bus \<Rightarrow> bool" for s0 where
  start: "bus_reachable s0 s0"
| step: "bus_reachable s0 s \<Longrightarrow> bus_step s e t \<Longrightarrow> bus_reachable s0 t"

inductive_cases advanceE: "bus_step s (Advance i) t"
inductive_cases spuriousE: "bus_step s (Spurious i) t"
inductive_cases call_appendE: "bus_step s (CallAppend i m) t"
inductive_cases call_listenE: "bus_step s (CallListen i) t"

section \<open>The same machine as a function\<close>

definition advance :: "bus \<Rightarrow> nat \<Rightarrow> bus option" where
  "advance s i = (case pcs s i of
      Idle \<Rightarrow> None
    | AppendLock m \<Rightarrow> if owner s = None then Some ((goto s i (AppendPush m))\<lparr>owner := Some i\<rparr>) else None
    | AppendPush m \<Rightarrow> Some ((goto s i (AppendStore m))\<lparr>chan := (chan s)\<lparr>msgVector := msgVector (chan s) @ [m]\<rparr>\<rparr>)
    | AppendStore m \<Rightarrow> Some ((goto s i AppendUnlock)\<lparr>chan := (chan s)\<lparr>last_message := m\<rparr>\<rparr>)
    | AppendUnlock \<Rightarrow> Some ((goto s i AppendNotify)\<lparr>owner := None\<rparr>)
    | AppendNotify \<Rightarrow> Some (s\<lparr>pcs := (wake_all (pcs s))(i := Idle)\<rparr>)
    | ListenLock \<Rightarrow> if owner s = None then Some ((goto s i ListenWait)\<lparr>owner := Some i\<rparr>) else None
    | ListenWait \<Rightarrow> Some ((goto s i ListenBlocked)\<lparr>owner := None\<rparr>)
    | ListenBlocked \<Rightarrow> None
    | ListenWake \<Rightarrow> if owner s = None then Some ((goto s i ListenRead)\<lparr>owner := Some i\<rparr>) else None
    | ListenRead \<Rightarrow> Some ((goto s i (ListenWrite (last_message (chan s))))\<lparr>owner := None\<rparr>)
    | ListenWrite m \<Rightarrow> Some ((goto s i ListenLock)\<lparr>sent := (sent s)(i := sent s i @ [m])\<rparr>))"

fun fire :: "bus \<Rightarrow> event \<Rightarrow> bus option" where
  "fire s (CallAppend i m) = (if pcs s i = Idle then Some (goto s i (AppendLock m)) else None)"
| "fire s (CallListen i) = (if pcs s i = Idle then Some (goto s i ListenLock) else None)"
| "fire s (Advance i) = advance s i"
| "fire s (Spurious i) = (if pcs s i = ListenBlocked then Some (goto s i ListenWake) else None)"

fun fire_all :: "bus \<Rightarrow> event list \<Rightarrow> bus option" where
  "fire_all s [] = Some s"
| "fire_all s (e # es) = (case fire s e of None \<Rightarrow> None | Some t \<Rightarrow> fire_all t es)"

lemma fire_iff: "fire s e = Some t \<longleftrightarrow> bus_step s e t"
proof
  show "fire s e = Some t \<Longrightarrow> bus_step s e t"
    by (cases e) (auto simp: advance_def intro: bus_step.intros split: if_splits pc.splits)
  show "bus_step s e t \<Longrightarrow> fire s e = Some t"
    by (induction rule: bus_step.induct) (simp_all add: advance_def)
qed

lemma fire_all_reachable: "bus_reachable s0 s \<Longrightarrow> fire_all s es = Some t \<Longrightarrow> bus_reachable s0 t"
  by (induction es arbitrary: s) (auto split: option.splits simp: fire_iff intro: bus_reachable.step)

section \<open>Invariants\<close>

fun holds_mutex :: "pc \<Rightarrow> bool" where
  "holds_mutex (AppendPush m) = True"
| "holds_mutex (AppendStore m) = True"
| "holds_mutex AppendUnlock = True"
| "holds_mutex ListenWait = True"
| "holds_mutex ListenRead = True"
| "holds_mutex _ = False"

definition lock_inv :: "bus \<Rightarrow> bool" where
  "lock_inv s \<longleftrightarrow> (\<forall>i. owner s = Some i \<longleftrightarrow> holds_mutex (pcs s i))"

lemma holds_wake_all [simp]: "holds_mutex (wake_all p j) = holds_mutex (p j)"
  by (simp add: wake_all_def)

lemma lock_inv_step: "bus_step s e t \<Longrightarrow> lock_inv s \<Longrightarrow> lock_inv t"
  by (induction rule: bus_step.induct)
     (auto simp: lock_inv_def, (metis holds_mutex.simps option.inject)+)

text \<open>The message that a reader of the channel should see: the newest of the log.\<close>

definition newest_of :: "message list \<Rightarrow> message" where
  "newest_of ms = (if ms = [] then empty_message else last ms)"

definition data_inv :: "bus \<Rightarrow> bool" where
  "data_inv s \<longleftrightarrow>
     (\<forall>i m. pcs s i = AppendStore m \<longrightarrow> msgVector (chan s) \<noteq> [] \<and> last (msgVector (chan s)) = m) \<and>
     (last_message (chan s) = newest_of (msgVector (chan s)) \<or> (\<exists>i m. pcs s i = AppendStore m))"

lemma wake_all_AppendStore [simp]: "wake_all p j = AppendStore m \<longleftrightarrow> p j = AppendStore m"
  by (simp add: wake_all_def)

lemma lock_exclusive:
  "lock_inv s \<Longrightarrow> holds_mutex (pcs s i) \<Longrightarrow> holds_mutex (pcs s j) \<Longrightarrow> i = j"
  by (metis lock_inv_def option.inject)

text \<open>The pending store of a thread is untouched by a step of another thread.\<close>

fun storing :: "pc \<Rightarrow> message option" where
  "storing (AppendStore m) = Some m"
| "storing _ = None"

lemma storing_iff: "p = AppendStore m \<longleftrightarrow> storing p = Some m"
  by (cases p) auto

lemma storing_wake_all [simp]: "storing (wake_all p j) = storing (p j)"
  by (simp add: wake_all_def)

lemma data_inv_frame:
  assumes "data_inv s" and "\<And>j. storing (pcs t j) = storing (pcs s j)"
    and "chan t = chan s"
  shows "data_inv t"
  using assms by (simp add: data_inv_def storing_iff)

lemma data_inv_step:
  assumes "bus_step s e t" and "lock_inv s" and "data_inv s"
  shows "data_inv t"
  using assms
proof (induction rule: bus_step.induct)
  case (append_push s i m)
  have "pcs s j \<noteq> AppendStore n" if "j \<noteq> i" for j n
    using lock_exclusive [OF append_push(2), of i j] append_push(1) that by auto
  then show ?case by (auto simp: data_inv_def split: if_splits)
next
  case (append_store s i m)
  have "pcs s j \<noteq> AppendStore n" if "j \<noteq> i" for j n
    using lock_exclusive [OF append_store(2), of i j] append_store(1) that by auto
  with append_store show ?case by (auto simp: data_inv_def newest_of_def)
qed (erule data_inv_frame; simp)+

end
