(* ===== verification/Delivery.thy ===== *)
theory Delivery
  imports Listeners
begin

text \<open>
  What the threads of \<open>Listeners\<close> guarantee in every reachable state: mutual exclusion, agreement
  of the shared channel with the sequential \<^verbatim>\<open>SynchronizedChannel\<close>, the order in
  which a listener delivers, progress, and runs that show what the protocol does not promise
  (\<^verbatim>\<open>wait\<close> is called without a predicate).
\<close>

section \<open>Invariants of reachable states\<close>

lemma reachable_induct:
  assumes "bus_reachable s0 s" and "P s0"
    and "\<And>s e t. bus_reachable s0 s \<Longrightarrow> bus_step s e t \<Longrightarrow> P s \<Longrightarrow> P t"
  shows "P s"
  using assms by (induction rule: bus_reachable.induct) blast+

lemma init_bus_simps [simp]:
  "owner (init_bus c) = None" "chan (init_bus c) = c" "pcs (init_bus c) i = Idle"
  "sent (init_bus c) i = []"
  by (simp_all add: init_bus_def)

lemma reachable_lock: "bus_reachable (init_bus c) s \<Longrightarrow> lock_inv s"
  by (erule reachable_induct) (auto simp: lock_inv_def [of "init_bus c"] intro: lock_inv_step)

lemma reachable_data:
  assumes "bus_reachable (init_bus c) s" and "fresh_channel c"
  shows "data_inv s"
  using assms(1)
proof (rule reachable_induct)
  show "data_inv (init_bus c)"
    using assms(2) by (simp add: data_inv_def fresh_channel_def newest_of_def)
qed (blast intro: data_inv_step reachable_lock)

lemma wtChannel_step: "bus_step s e t \<Longrightarrow> wtChannel (chan t) = wtChannel (chan s)"
  by (induction rule: bus_step.induct) simp_all

lemma reachable_wtChannel: "bus_reachable (init_bus c) s \<Longrightarrow> wtChannel (chan s) = wtChannel c"
  by (erule reachable_induct) (simp_all add: wtChannel_step)

text \<open>A state in which no thread has pushed without storing: the two copies agree.\<close>

lemma settled_newest:
  assumes "data_inv s" and "\<And>i. storing (pcs s i) = None"
  shows "last_message (chan s) = newest_of (msgVector (chan s))"
  using assms by (simp add: data_inv_def storing_iff)

lemma not_storing:
  assumes "lock_inv s" and "owner s = None \<or> (\<exists>i. pcs s i = ListenRead)"
  shows "storing (pcs s j) = None"
proof (cases "pcs s j")
  case (AppendStore m)
  then have j: "holds_mutex (pcs s j)" by simp
  from assms(2) show ?thesis
  proof
    assume "owner s = None"
    with assms(1) j show ?thesis by (auto simp: lock_inv_def)
  next
    assume "\<exists>i. pcs s i = ListenRead"
    then obtain i where i: "pcs s i = ListenRead" ..
    then have "i = j" by (intro lock_exclusive [OF assms(1) _ j]) simp
    with i AppendStore show ?thesis by simp
  qed
qed simp_all

lemma channel_eqI:
  "wtChannel c = wtChannel d \<Longrightarrow> last_message c = last_message d \<Longrightarrow> msgVector c = msgVector d \<Longrightarrow>
   (c :: sync_channel) = d"
  by simp

lemma sequential_channel:
  assumes "fresh_channel c"
  shows "fold appendMessage ms c =
     \<lparr>wtChannel = wtChannel c, last_message = newest_of ms, msgVector = ms\<rparr>"
  using sync.fresh_run [OF assms, of ms]
  by (intro channel_eqI) (simp_all add: wtChannel_fold getMessages_def lastMessage_def newest_of_def)

section \<open>Order of delivery\<close>

text \<open>What thread \<open>i\<close> has written, with the message it is about to write.\<close>

fun pending :: "pc \<Rightarrow> message list" where
  "pending (ListenWrite m) = [m]"
| "pending _ = []"

lemma pending_wake_all [simp]: "pending (wake_all p j) = pending (p j)"
  by (simp add: wake_all_def)

definition delivered :: "bus \<Rightarrow> nat \<Rightarrow> message list" where
  "delivered s i = sent s i @ pending (pcs s i)"

text \<open>\<open>in_order log xs\<close>: the list \<open>xs\<close> reads positions of \<open>log\<close> that never go back.\<close>

definition in_order :: "message list \<Rightarrow> message list \<Rightarrow> bool" where
  "in_order log xs \<longleftrightarrow>
     (\<exists>ps. sorted ps \<and> (\<forall>p \<in> set ps. p < length log) \<and> xs = map (\<lambda>p. log ! p) ps)"

lemma in_order_Nil [simp]: "in_order log []"
  by (auto simp: in_order_def intro: exI [of _ "[]"])

lemma in_order_extend: "in_order log xs \<Longrightarrow> in_order (log @ ys) xs"
  unfolding in_order_def by (elim exE, rule_tac x = ps in exI) (auto simp: nth_append)

lemma in_order_last:
  assumes "in_order log xs" and "log \<noteq> []"
  shows "in_order log (xs @ [last log])"
proof -
  obtain ps where ps: "sorted ps" "\<forall>p \<in> set ps. p < length log" "xs = map (\<lambda>p. log ! p) ps"
    using assms(1) by (auto simp: in_order_def)
  have "sorted (ps @ [length log - 1])"
    using ps(1,2) by (fastforce simp: sorted_append)
  moreover have "\<forall>p \<in> set (ps @ [length log - 1]). p < length log"
    using ps(2) assms(2) by auto
  moreover have "xs @ [last log] = map (\<lambda>p. log ! p) (ps @ [length log - 1])"
    using ps(3) assms(2) by (simp add: last_conv_nth)
  ultimately show ?thesis unfolding in_order_def by blast
qed

definition order_inv :: "bus \<Rightarrow> bool" where
  "order_inv s \<longleftrightarrow> (\<forall>i. in_order (empty_message # msgVector (chan s)) (delivered s i))"

lemma order_inv_frame:
  assumes "order_inv s" and "\<And>j. delivered t j = delivered s j"
    and "msgVector (chan t) = msgVector (chan s) @ ys"
  shows "order_inv t"
  using assms in_order_extend [of "empty_message # msgVector (chan s)" _ ys]
  by (auto simp: order_inv_def)

lemma order_inv_step:
  assumes "bus_step s e t" and "lock_inv s" and "data_inv s" and "order_inv s"
  shows "order_inv t"
  using assms
proof (induction rule: bus_step.induct)
  case (append_push s i m)
  show ?case by (rule order_inv_frame [OF append_push(4), of _ "[m]"])
      (use append_push(1) in \<open>auto simp: delivered_def\<close>)
next
  case (listen_read s i)
  have "last_message (chan s) = newest_of (msgVector (chan s))"
    using listen_read by (blast intro: settled_newest not_storing)
  then have new: "last_message (chan s) = last (empty_message # msgVector (chan s))"
    by (simp add: newest_of_def)
  have "in_order (empty_message # msgVector (chan s)) (delivered s j)" for j
    using listen_read(4) by (simp add: order_inv_def)
  moreover from this [of i] have
    "in_order (empty_message # msgVector (chan s)) (sent s i @ [last_message (chan s)])"
    unfolding new using listen_read(1) in_order_last by (fastforce simp: delivered_def)
  ultimately show ?case by (simp add: order_inv_def delivered_def)
qed (erule order_inv_frame [of _ _ "[]"]; auto simp: delivered_def)+

lemma reachable_order:
  assumes "bus_reachable (init_bus c) s" and "fresh_channel c"
  shows "order_inv s"
  using assms(1)
proof (rule reachable_induct)
  show "order_inv (init_bus c)"
    by (simp add: order_inv_def delivered_def)
qed (blast intro: order_inv_step reachable_lock reachable_data assms(2))

section \<open>Progress\<close>

text \<open>The statements at which a thread can wait: only \<^verbatim>\<open>lock\<close> and
  \<^verbatim>\<open>wait\<close> block.\<close>

fun wants_mutex :: "pc \<Rightarrow> bool" where
  "wants_mutex (AppendLock m) = True"
| "wants_mutex ListenLock = True"
| "wants_mutex ListenWake = True"
| "wants_mutex _ = False"

definition active :: "pc \<Rightarrow> bool" where
  "active p \<longleftrightarrow> p \<noteq> Idle \<and> p \<noteq> ListenBlocked"

lemma advance_Some:
  "active (pcs s i) \<Longrightarrow> (wants_mutex (pcs s i) \<Longrightarrow> owner s = None) \<Longrightarrow> \<exists>t. advance s i = Some t"
  by (cases "pcs s i") (simp_all add: advance_def active_def)

lemma holder_active: "holds_mutex p \<Longrightarrow> active p \<and> \<not> wants_mutex p"
  by (cases p) (simp_all add: active_def)

lemma some_thread_advances:
  assumes "lock_inv s" and "active (pcs s i)"
  shows "\<exists>j t. advance s j = Some t"
proof (cases "owner s")
  case None
  then show ?thesis using advance_Some [OF assms(2)] by blast
next
  case (Some j)
  then have "holds_mutex (pcs s j)" using assms(1) by (auto simp: lock_inv_def)
  then show ?thesis using holder_active advance_Some by blast
qed

fun listening :: "pc \<Rightarrow> bool" where
  "listening ListenLock = True"
| "listening ListenWait = True"
| "listening ListenBlocked = True"
| "listening ListenWake = True"
| "listening ListenRead = True"
| "listening (ListenWrite m) = True"
| "listening _ = False"

lemma listening_wake_all [simp]: "listening (wake_all p j) = listening (p j)"
  by (simp add: wake_all_def)

lemma listening_step: "bus_step s e t \<Longrightarrow> listening (pcs s i) \<Longrightarrow> listening (pcs t i)"
  by (induction rule: bus_step.induct) auto

section \<open>Properties\<close>

definition one_listener :: "event list" where
  "one_listener = [CallListen 1, Advance 1, Advance 1]"

definition one_append :: "nat \<Rightarrow> message \<Rightarrow> event list" where
  "one_append i m = CallAppend i m # replicate 5 (Advance i)"

lemmas run_simps = one_listener_def one_append_def advance_def wake_all_def numeral_eq_Suc init_bus_def

lemma run_reachable: "fire_all (init_bus c) es = Some s \<Longrightarrow> bus_reachable (init_bus c) s"
  by (rule fire_all_reachable [OF bus_reachable.start])

text \<open>A run used by the examples below: a listener is blocked, one message is appended and
  delivered, and the listener holds the mutex again.\<close>

definition example_run :: "event list" where
  "example_run = one_listener @ one_append 0 empty_message @ replicate 4 (Advance 1)"

lemma example_state:
  obtains s where "bus_reachable (init_bus SynchronizedChannel_default) s"
    "pcs s = (\<lambda>j. if j = 1 then ListenWait else Idle)" "owner s = Some 1"
    "sent s 1 = [empty_message]" "getMessages (chan s) = [empty_message]"
proof -
  obtain s where "fire_all (init_bus SynchronizedChannel_default) example_run = Some s"
    "pcs s = (\<lambda>j. if j = 1 then ListenWait else Idle)" "owner s = Some 1"
    "sent s 1 = [empty_message]" "getMessages (chan s) = [empty_message]"
    by (simp add: example_run_def run_simps SynchronizedChannel_default_def getMessages_def fun_eq_iff)
  then show thesis using run_reachable that by blast
qed

text \<open>C27 (mutual exclusion). In every reachable state of a channel's threads at most one thread is
  between locking and unlocking \<^verbatim>\<open>channelMutex_\<close>, and the mutex's owner is that
  thread.\<close>

theorem channel_mutual_exclusion:
  assumes "bus_reachable (init_bus c) s"
    and "holds_mutex (pcs s i)" and "holds_mutex (pcs s j)"
  shows "i = j \<and> owner s = Some i"
  using lock_exclusive [OF reachable_lock [OF assms(1)] assms(2,3)] reachable_lock [OF assms(1)] assms(2)
  by (simp add: lock_inv_def)

theorem channel_mutual_exclusion_witness:
  "\<exists>s. bus_reachable (init_bus SynchronizedChannel_default) s \<and> holds_mutex (pcs s 1) \<and> owner s = Some 1"
proof -
  obtain s where s: "bus_reachable (init_bus SynchronizedChannel_default) s" "holds_mutex (pcs s 1)"
    by (rule example_state) simp
  then show ?thesis using channel_mutual_exclusion [OF s(1,2,2)] by blast
qed

text \<open>C21 (linearisation). Whenever the mutex is free, the shared channel is exactly the sequential
  \<^verbatim>\<open>SynchronizedChannel\<close> to which the logged messages were appended one after the
  other: interleaved appends lose nothing, and \<^verbatim>\<open>lastMessage_\<close> is the newest entry of
  \<^verbatim>\<open>msgVector_\<close>.\<close>

theorem channel_linearises:
  assumes "bus_reachable (init_bus c) s" and "fresh_channel c" and "owner s = None"
  shows "chan s = fold appendMessage (getMessages (chan s)) c \<and>
     lastMessage (chan s) = newest_of (getMessages (chan s))"
proof -
  have newest: "last_message (chan s) = newest_of (msgVector (chan s))"
    using reachable_data [OF assms(1,2)] not_storing [OF reachable_lock [OF assms(1)]] assms(3)
    by (blast intro: settled_newest)
  with reachable_wtChannel [OF assms(1)] show ?thesis
    by (simp add: sequential_channel [OF assms(2)] getMessages_def lastMessage_def)
qed

theorem channel_linearises_witness:
  "\<exists>s. bus_reachable (init_bus SynchronizedChannel_default) s \<and> getMessages (chan s) = [empty_message] \<and>
     chan s = fold appendMessage [empty_message] SynchronizedChannel_default"
proof -
  obtain s where s: "fire_all (init_bus SynchronizedChannel_default) (one_append 0 empty_message) = Some s"
      "owner s = None" "getMessages (chan s) = [empty_message]"
    by (simp add: run_simps SynchronizedChannel_default_def getMessages_def)
  note r = run_reachable [OF s(1)]
  show ?thesis
    using channel_linearises [OF r constructors_fresh(2) s(2)] r s(3)
    by (intro exI [of _ s]) simp
qed



text \<open>C28 (no deadlock). As long as some thread is neither idle nor blocked in
  \<^verbatim>\<open>wait\<close>, some thread can execute its next statement.\<close>

theorem channel_deadlock_free:
  assumes "bus_reachable (init_bus c) s" and "active (pcs s i)"
  shows "\<exists>j t. bus_step s (Advance j) t"
  using some_thread_advances [OF reachable_lock [OF assms(1)] assms(2)] fire_iff [of s "Advance _"]
  by simp

theorem channel_deadlock_free_witness:
  "\<exists>s. bus_reachable (init_bus SynchronizedChannel_default) s \<and> active (pcs s 1) \<and>
     (\<exists>j t. bus_step s (Advance j) t)"
proof -
  obtain s where s: "bus_reachable (init_bus SynchronizedChannel_default) s" "active (pcs s 1)"
    by (rule example_state) (simp add: active_def)
  then show ?thesis using channel_deadlock_free [OF s] by blast
qed

text \<open>A listener never returns. Once \<^verbatim>\<open>ListenWrongthinkMessagesImpl\<close> is in its
  loop it stays there for ever, whatever the threads do: the \<^verbatim>\<open>return Status::OK\<close>
  below the loop is dead code.\<close>

theorem listener_never_returns:
  assumes "bus_reachable s t" and "listening (pcs s i)"
  shows "listening (pcs t i) \<and> pcs t i \<noteq> Idle"
proof -
  from assms(1) have "listening (pcs t i)"
    using assms(2) by (induction rule: bus_reachable.induct) (blast intro: listening_step)+
  then show ?thesis by auto
qed

theorem listener_never_returns_witness:
  "\<exists>s. bus_reachable (init_bus SynchronizedChannel_default) s \<and> listening (pcs s 1) \<and> pcs s 1 \<noteq> Idle"
proof -
  obtain s where s: "bus_reachable (init_bus SynchronizedChannel_default) s" "listening (pcs s 1)"
    by (rule example_state) simp
  then show ?thesis using listener_never_returns [OF bus_reachable.start s(2)] by blast
qed

text \<open>Delivery. A listener that is blocked when a handler appends a message receives that
  message, if the two threads then run without interference; the handler returns, and the message
  is in the log.\<close>

theorem blocked_listener_receives:
  assumes "pcs s i = Idle" and "pcs s j = ListenBlocked" and "owner s = None"
  shows "\<exists>t. fire_all s (one_append i m @ replicate 3 (Advance j)) = Some t \<and>
     sent t j = sent s j @ [m] \<and> getMessages (chan t) = getMessages (chan s) @ [m] \<and>
     pcs t i = Idle \<and> pcs t j = ListenLock"
proof -
  from assms have "i \<noteq> j" by auto
  with assms show ?thesis by (simp add: run_simps getMessages_def)
qed

theorem blocked_listener_receives_witness:
  "let s = (init_bus SynchronizedChannel_default)\<lparr>pcs := (\<lambda>_. Idle)(1 := ListenBlocked)\<rparr> in
   \<exists>t. fire_all s (one_append 0 empty_message @ replicate 3 (Advance 1)) = Some t \<and>
     sent t 1 = [empty_message]"
  using blocked_listener_receives
      [of "(init_bus SynchronizedChannel_default)\<lparr>pcs := (\<lambda>_. Idle)(1 := ListenBlocked)\<rparr>" 0 1 empty_message]
  by (auto simp: Let_def)

text \<open>C40 (lost messages). A message that was appended before the listener blocks is not delivered:
  there is a reachable state in which the message is in the log, the listener is blocked without
  having received it, and no thread can execute a statement.\<close>

theorem message_lost_before_wait:
  "\<exists>s. bus_reachable (init_bus SynchronizedChannel_default) s \<and> getMessages (chan s) = [m] \<and>
     pcs s 1 = ListenBlocked \<and> sent s 1 = [] \<and> (\<forall>j t. \<not> bus_step s (Advance j) t)"
proof -
  let ?es = "one_append 0 m @ one_listener"
  obtain s where s: "fire_all (init_bus SynchronizedChannel_default) ?es = Some s"
      "getMessages (chan s) = [m]" "pcs s = (\<lambda>j. if j = 1 then ListenBlocked else Idle)" "sent s 1 = []"
    by (simp add: run_simps SynchronizedChannel_default_def getMessages_def fun_eq_iff)
  moreover have "\<not> bus_step s (Advance j) t" for j t
    using s(3) by (simp add: fire_iff [symmetric] advance_def)
  ultimately show ?thesis
    using fire_all_reachable [OF bus_reachable.start] by (intro exI [of _ s]) simp
qed

text \<open>Spurious wakeups. Since \<^verbatim>\<open>wait\<close> has no predicate, a spurious wakeup makes a
  listener deliver again what it has delivered, and the empty message on a channel without any.\<close>

theorem spurious_wakeup_delivers_empty:
  "\<exists>s. bus_reachable (init_bus SynchronizedChannel_default) s \<and> getMessages (chan s) = [] \<and>
     sent s 1 = [empty_message]"
proof -
  let ?es = "one_listener @ Spurious 1 # replicate 3 (Advance 1)"
  obtain s where s: "fire_all (init_bus SynchronizedChannel_default) ?es = Some s"
      "getMessages (chan s) = []" "sent s 1 = [empty_message]"
    by (simp add: run_simps SynchronizedChannel_default_def getMessages_def)
  then show ?thesis
    using fire_all_reachable [OF bus_reachable.start] by blast
qed

end
