(* ===== verification/Spec2Isabelle.thy ===== *)
theory Spec2Isabelle
  imports Guarded Stability BanRace Places Server Delivery
begin

text \<open>
  A verification development for \<^verbatim>\<open>wrongthink\<close>, a chat server in C++: clients create users,
  communities and channels, send messages, read them back or listen for new ones, over gRPC; the
  data are in a SQL database behind SOCI, and the channels somebody has used are also live objects
  in memory.

  \<^bold>\<open>The program and the theories.\<close> All paths are under \<^verbatim>\<open>src/\<close>.

  \<^item> \<open>Prelude\<close>: exceptions as values, computations with state and exceptions (\<open>io\<close>), the rules
    for their invariants (\<open>keeps\<close>, \<open>keeps_intros\<close>), lists.
  \<^item> \<open>Sql\<close>: the statements that the code sends, as functions on tables: select with join,
    where and order by, insert, update, delete, create and drop, with types, defaults, sequences and
    constraints. The engine and SOCI are the argument \<open>env\<close>; what is assumed of them is the
    locale \<open>sql_engine\<close>.
  \<^item> \<open>Schema\<close>, \<open>Database\<close>: \<^verbatim>\<open>DB/DBPostgres.cpp\<close> and \<^verbatim>\<open>DB/DBSQLite.cpp\<close>:
    the tables, and one definition per method, a sequence of statements. The virtual functions of
    \<^verbatim>\<open>DB/DBInterface.h\<close> are the record \<open>db_interface\<close>.
  \<^item> \<open>Auth\<close>: \<^verbatim>\<open>Authentication/WrongthinkTokenAuthenticator.cpp\<close>, the metadata entries
    that carry a user's name and token.
  \<^item> \<open>Uuid\<close>: the part of the vendored Boost library that draws and prints random UUIDs.
  \<^item> \<open>Channel\<close>, \<open>Listeners\<close>: \<^verbatim>\<open>SynchronizedChannel.cpp\<close>, first the bodies of its
    methods, then its threads as a step relation: one step per statement, with the mutex, the
    condition variable and spurious wakeups.
  \<^item> \<open>Service\<close>: \<^verbatim>\<open>WrongthinkServiceImpl.cpp\<close>, one definition per RPC handler, each with all
    its statements, early returns and its catch block. \<open>Serving\<close> has the requests as data and
    their dispatch (\<^verbatim>\<open>WrongthinkServiceImpl.h\<close>).
  \<^item> \<open>Threads\<close>, \<open>Interleaving\<close>, \<open>Concurrency\<close>: computations as threads of atomic steps under a
    schedule; the methods of the database layer and the handlers again, each as such a thread
    (\<open>pg_createUser\<close> and \<open>createUser_thread\<close>, \<open>BanUser\<close> and \<open>BanUser_thread\<close>, and so on). A step is
    one database statement or one access to \<^verbatim>\<open>channelMap\<close>.
  \<^item> \<open>Interceptor\<close>: \<^verbatim>\<open>Interceptors/Interceptor.cpp\<close>, the factory, the interceptor that it
    creates for each call, and its hook points. \<open>Guarded\<close> has it again as a thread, in front of the
    thread of the handler; whether gRPC still serves a call after \<^verbatim>\<open>TryCancel\<close>, which is best
    effort, is the argument \<open>serve_cancelled\<close>.
  \<^item> \<open>Server\<close>: \<^verbatim>\<open>wrongthink.cpp\<close>: the loggers, the objects and the options that the
    server is started with, and the constructors of the database classes.

  The state of a database method is \<open>world\<close>: the tables, and counters of sessions and statements
  that the engine's clock and its connection failures depend on. A handler runs on \<open>server\<close>: the
  world and \<^verbatim>\<open>channelMap\<close>. Handlers that stream to the client also carry the list of what they
  have written. Exceptions are \<open>Inl\<close> values; undefined behaviour is the value \<open>Undefined\<close>, which no
  catch block catches.

  \<^bold>\<open>What the lemmas show.\<close>

  \<^item> \<open>DbInvariant\<close>: every method keeps \<open>server_inv\<close>: installed tables, no violated
    constraint, well-typed values, generated keys within the sequence.
  \<^item> \<open>DbSpec\<close>, \<open>Bans\<close>, \<open>ChannelDb\<close>, \<open>MessageDb\<close>: the methods evaluated, on
    every branch, over abstract views of the tables: the directory of users, the maps of bans, the
    entries of channels and communities, the history of a channel.
  \<^item> \<open>Engines\<close>: PostgreSQL and SQLite as two engines that interpret the locale \<open>backend\<close>; a
    \<open>deployment\<close> is an engine with the schema and the method table that the program runs it with.
  \<^item> \<open>Contract\<close>: the locale \<open>db_contract\<close>, what the handlers rely on, which both back ends
    provide. \<open>Handlers\<close>, \<open>Messaging\<close>, \<open>Streams\<close>, \<open>Places\<close> and \<open>Gate\<close>
    show from it what bans, messages, streams of messages, new channels and communities, and the
    interceptor do.
  \<^item> \<open>Growth\<close>, \<open>Serving\<close>: runs of the whole service over arbitrary requests: every request is
    answered, live channels agree with stored ones, and nothing that was stored is lost.
  \<^item> \<open>Delivery\<close>: mutual exclusion, agreement with the sequential channel, order of delivery,
    absence of deadlock, and the messages that a listener misses.
  \<^item> \<open>Listings\<close>: what the handlers that list channels and communities write.
  \<^item> \<open>Interleaving\<close>, \<open>BanRace\<close>: concurrent calls of the database layer; two first users that both
    become administrators; two bans of one user that both insert a row.
  \<^item> \<open>Concurrency\<close>, \<open>Together\<close>, \<open>Reading\<close>: a request that is left alone is its handler; requests
    that run together meet a rely/guarantee specification, by which the invariant of the service is
    kept, senders keep their order, a name is registered once, and no request starves; stored values
    have the types they are read with.
  \<^item> \<open>Guarded\<close>: the same with every call behind the interceptor. \<open>Stability\<close>: what a concurrent
    reader has been sent is in every later reading.
  \<^item> This theory: start-up, the deployed server from start-up on, the user checks, registration, bans, credentials and generated
    identifiers.

  \<^bold>\<open>Bounds and termination.\<close> Integers are unbounded where the code only passes them on; \<open>int32\<close> is
  the range of \<^verbatim>\<open>int\<close> and of SQL's \<^verbatim>\<open>integer\<close>, and arithmetic of the code checks it. A key
  beyond that range counts as an exhausted sequence, also on SQLite, whose row ids go further. The
  bytes of a UUID are words of eight bits. The loop that strips dashes is a
  \<open>partial_function\<close>, shown to end on every UUID; the loop over a client's stream ends with the
  stream (a measure); a thread is a datatype, so each has finitely many steps; the loop of a listener has no end, and is part of the step relation instead.
  No definition needs fuel.

  \<^bold>\<open>Not modelled.\<close> gRPC, protobuf and SOCI beyond what the parameters say: a flag field that is
  assigned an \<open>int\<close>, the first column of an empty row and the column that a repeated name selects
  are arguments of the model. The lines that are printed to the log, except those of the interceptor. PostgreSQL's rule that cuts
  trailing spaces from a value that is too long for its column. The data race on
  \<^verbatim>\<open>channelMap\<close>, whose mutex is declared and never locked: each access to the map is one atomic
  step here, and so is \<^verbatim>\<open>appendMessage\<close> within a handler, which its own mutex makes so
  (\<open>Delivery\<close>). A reading handler fetches its rows with its query, at once. Name-based UUIDs, their
  parsing and the entropy providers. The web socket example, which no build target compiles, the
  deprecated command line client and the tests.
\<close>

section \<open>Starting up\<close>

text \<open>C20 (clear). On a database whose tables are those of the program's schema, \<^verbatim>\<open>clear\<close>
  succeeds and leaves no table: the order in which it drops the tables respects every foreign
  key.\<close>

theorem clear_drops_everything:
  assumes "deployment E sch db" and "conforms sch (tabs w)" and "session_up E (sessions w)"
  shows "\<exists>w'. clear db w = (Inr (), w') \<and> tabs w' = (\<lambda>_. None)"
  using clear_runs [OF assms(3) deployment_drops [OF assms(1)] assms(2)]
  by (simp add: deployment_methods [OF assms(1)])

theorem clear_drops_everything_witness:
  "\<exists>w'. clear (pg_db pg0) pg_start = (Inr (), w') \<and> tabs w' = (\<lambda>_. None)"
  by (rule clear_drops_everything [OF pg0_deployment])
     (simp_all add: pg_start_def conforms_def created_def)

lemma created_installed: "installed sch d \<Longrightarrow> created sch UNIV d = d"
  by (rule ext) (auto simp: created_def installed_def)

lemma validate_result:
  assumes "deployment E sch db" and "session_up E (sessions w)"
  shows "validate db w = (Inr (), w\<lparr>sessions := Suc (sessions w),
    tabs := created sch UNIV (tabs w), ticks := ticks w + 7\<rparr>)"
  using validate_runs [OF assms(2) deployment_refs [OF assms(1)]]
  by (simp add: deployment_validate [OF assms(1)])

text \<open>C25 (validate). On an empty database \<^verbatim>\<open>validate\<close> creates all tables, in an order
  that respects the foreign keys, and establishes the invariant of the stored data; on a database
  that the program has used before it changes nothing.\<close>

theorem validate_establishes_invariant:
  assumes "deployment E sch db" and "session_up E (sessions w)"
    and "tabs w = (\<lambda>_. None) \<or> server_inv E sch (tabs w)"
  shows "\<exists>w'. validate db w = (Inr (), w') \<and> server_inv E sch (tabs w') \<and>
     (tabs w \<noteq> (\<lambda>_. None) \<longrightarrow> tabs w' = tabs w)"
  using assms(3) created_inv [of E sch] created_installed [of sch "tabs w"]
  by (auto simp: validate_result [OF assms(1,2)] server_inv_def)

theorem validate_establishes_invariant_witness:
  "\<exists>w'. validate (pg_db pg0) no_tables = (Inr (), w') \<and> server_inv pg0 pg_schema (tabs w')"
  using validate_establishes_invariant [OF pg0_deployment, of no_tables]
  by (auto simp: no_tables_def)

text \<open>Start-up, evaluated.\<close>

lemma main_result:
  assumes "deployment E pg_schema (pg_db E)"
    and "tabs w = (\<lambda>_. None) \<or> server_inv E pg_schema (tabs w)"
    and engine: "engine main_connection = E"
  shows "case main engine args w of
      (Inl e, w') \<Rightarrow> False
    | (Inr (Exit n), w') \<Rightarrow> n = (if args = [''sqlite''] then 1 else 0) \<and>
         (args \<noteq> [''sqlite''] \<longrightarrow> (\<exists>i. \<not> session_up E i)) \<and>
         (args \<noteq> [''clear''] \<longrightarrow> tabs w' = tabs w)
    | (Inr (Serving c), w') \<Rightarrow> c = RunServer (pg_db E) coinfigureLog \<and> args \<noteq> [''sqlite''] \<and> server_inv E pg_schema (tabs w') \<and>
         tabs w' = (if args = [''clear''] \<or> tabs w = (\<lambda>_. None) then created pg_schema UNIV (\<lambda>_. None) else tabs w)"
proof -
  have conf: "conforms pg_schema (tabs w)"
    using assms(2) installed_conforms by (auto simp: server_inv_def) (simp add: conforms_def)
  have new: "server_inv E pg_schema (created pg_schema UNIV (tabs w))"
      "tabs w \<noteq> (\<lambda>_. None) \<Longrightarrow> created pg_schema UNIV (tabs w) = tabs w"
    using assms(2) created_inv [of E pg_schema] created_installed [of pg_schema "tabs w"]
    by (auto simp: server_inv_def)
  have val: "validate (pg_db E) v = (if session_up E (sessions v)
      then (Inr (), v\<lparr>sessions := Suc (sessions v), tabs := created pg_schema UNIV (tabs v), ticks := ticks v + 7\<rparr>)
      else (Inl ConnectionFailed, v\<lparr>sessions := Suc (sessions v)\<rparr>))" for v
    using validate_result [OF assms(1), of v]
    by (simp add: deployment_validate [OF assms(1)] bind_io_def session_fails)
  have clr: "clear (pg_db E) w = (if session_up E (sessions w)
      then (Inr (), w\<lparr>sessions := Suc (sessions w), tabs := (\<lambda>_. None), ticks := ticks w + 7\<rparr>)
      else (Inl ConnectionFailed, w\<lparr>sessions := Suc (sessions w)\<rparr>))"
    using clear_runs [OF _ deployment_drops [OF assms(1)] conf]
    by (simp add: deployment_methods [OF assms(1)] db_clear_def bind_io_def session_fails)
  consider "args = [''sqlite'']" | "args = [''clear'']" | "args \<noteq> [''sqlite'']" "args \<noteq> [''clear'']" by blast
  then show ?thesis
    by cases (auto simp: main_def main_setup_def Let_def bind_io_def engine try_catch_def val clr new created_inv)
qed

text \<open>C26 (start-up). What \<^verbatim>\<open>main\<close> does on a database without tables or with the
  program's data: the SQLite option ends the process with status 1, a database that cannot be
  reached ends it with status 0, and otherwise the server runs on data that satisfy the invariant,
  which are the old ones unless \<^verbatim>\<open>clear\<close> was asked for.\<close>

theorem main_outcomes:
  assumes "deployment E pg_schema (pg_db E)"
    and "tabs w = (\<lambda>_. None) \<or> server_inv E pg_schema (tabs w)"
    and engine: "engine main_connection = E"
  shows "case main engine args w of
      (Inl e, w') \<Rightarrow> False
    | (Inr (Exit n), w') \<Rightarrow> n = (if args = [''sqlite''] then 1 else 0) \<and>
         (args \<noteq> [''sqlite''] \<longrightarrow> (\<exists>i. \<not> session_up E i)) \<and>
         (args \<noteq> [''clear''] \<longrightarrow> tabs w' = tabs w)
    | (Inr (Serving c), w') \<Rightarrow> c = RunServer (pg_db E) coinfigureLog \<and> args \<noteq> [''sqlite''] \<and> server_inv E pg_schema (tabs w') \<and>
         (args \<noteq> [''clear''] \<and> tabs w \<noteq> (\<lambda>_. None) \<longrightarrow> tabs w' = tabs w)"
  using main_result [of E w engine args] assms by (auto split: prod.splits sum.splits main_outcome.splits)

theorem main_outcomes_witness:
  "\<exists>w'. main (\<lambda>c. pg0) [] no_tables = (Inr (Serving (RunServer (pg_db pg0) coinfigureLog)), w') \<and> server_inv pg0 pg_schema (tabs w')"
  using main_outcomes [OF pg0_deployment, of no_tables "\<lambda>c. pg0" "[]"]
  by (auto simp: no_tables_def split: prod.splits sum.splits main_outcome.splits)

text \<open>The server that \<^verbatim>\<open>main\<close> has started, before the first request.\<close>

abbreviation fresh_server :: "world \<Rightarrow> server" where
  "fresh_server w \<equiv> \<lparr>world_of = w, channelMap = (\<lambda>_. None)\<rparr>"

lemma started:
  assumes dep: "deployment E pg_schema (pg_db E)"
    and tables: "tabs w = (\<lambda>_. None) \<or> args = [''clear''] \<and> server_inv E pg_schema (tabs w)"
    and engine: "engine main_connection = E" and start: "main engine args w = (Inr (Serving c), w')"
  shows "c = RunServer (pg_db E) coinfigureLog" and "service_inv E pg_schema (fresh_server w')"
    and "typed E pg_schema (tabs w')"
proof -
  have w': "server_inv E pg_schema (tabs w')" "tabs w' = created pg_schema UNIV (\<lambda>_. None)"
      "c = RunServer (pg_db E) coinfigureLog"
    using main_result [of E w engine args] dep engine tables start by auto
  then show "c = RunServer (pg_db E) coinfigureLog" "service_inv E pg_schema (fresh_server w')"
    by (simp_all add: service_inv_def)
  have "stored (tabs w') Messages = []" by (simp add: w'(2) stored_def created_def)
  then show "typed E pg_schema (tabs w')" using w'(1) by (simp add: typed_def complete_def)
qed

text \<open>From start-up on. A server that \<^verbatim>\<open>main\<close> has started on an empty database, or
  after \<^verbatim>\<open>clear\<close>, satisfies the invariant of the service after any number of requests that it
  serves concurrently, and everything stored has the types it is read with.\<close>

theorem started_server_stays_sound:
  assumes dep: "deployment E pg_schema (pg_db E)" and null: "no_row_null E"
    and tables: "tabs w = (\<lambda>_. None) \<or> args = [''clear''] \<and> server_inv E pg_schema (tabs w)"
    and engine: "engine main_connection = E" and start: "main engine args w = (Inr (Serving c), w')"
    and ts: "serving E calls ts"
    and run: "schedule is ts \<lparr>world_of = w', channelMap = (\<lambda>_. None)\<rparr> = (ts', s')"
  shows "service_inv E pg_schema s' \<and> typed E pg_schema (tabs (world_of s'))"
  using started [OF dep tables engine start] serving_typed [OF dep _ ts run]
    service.schedule_meets [OF _ serving_meets [OF dep null _ ts] run] by simp

theorem started_server_stays_sound_witness:
  "\<exists>w'. main (\<lambda>c. pg0) [] no_tables = (Inr (Serving (RunServer (pg_db pg0) coinfigureLog)), w') \<and>
    service_inv pg0 pg_schema (snd (schedule rival_schedule rival_threads \<lparr>world_of = w', channelMap = (\<lambda>_. None)\<rparr>))"
proof -
  have none: "tabs no_tables = (\<lambda>_. None)" by (simp add: no_tables_def)
  obtain w' where w': "main (\<lambda>c. pg0) [] no_tables = (Inr (Serving (RunServer (pg_db pg0) coinfigureLog)), w')"
    using main_result [of pg0 no_tables "\<lambda>c. pg0" "[]"] pg0_deployment none
    by (auto split: prod.splits sum.splits main_outcome.splits)
  show ?thesis
    using started_server_stays_sound [OF pg0_deployment _ disjI1 [OF none] refl w' rivals_serving
        prod.collapse [symmetric]] w' by simp
qed

lemma one_interceptor: "intercept_call [LoggingInterceptorFactory_of db l] hooks k = Intercept db hooks k"
  by (rule ext)
     (simp add: CreateServerInterceptor_def LoggingInterceptor_of_def LoggingInterceptorFactory_of_def bind_io_def
       ret_def split: prod.splits sum.splits)


text \<open>The two calls again, the first ones after start-up.\<close>

definition first_server :: "server" where
  "first_server = fresh_server (snd (main (\<lambda>c. pg0_dates) [] no_tables))"

abbreviation first_reply :: reply where
  "first_reply \<equiv> User_reply status_ok \<lparr>u_userid = 1, u_uname = ''bob'', u_token = [], u_admin = 1\<rparr>"

lemma first_calls_run:
  "map outcome (fst (schedule guest_schedule guest_threads first_server)) =
     [Some (Inr (Some first_reply)),
      Some (Inr (Some (User_reply status_ok \<lparr>u_userid = 2, u_uname = ''eve'', u_token = [], u_admin = 1\<rparr>)))]"
  by code_simp


section \<open>The stored data\<close>

text \<open>The database layer keeps the invariant. On either back end, every method of
  \<^verbatim>\<open>DBInterface\<close> that the service calls leaves stored data that satisfy all
  constraints of the schema, hold values of their columns' types and have keys that were drawn from
  the table's sequence; also when it raises an exception.\<close>

theorem database_methods_keep_invariant:
  assumes "deployment E sch db" and "server_inv E sch (tabs w)"
  shows "server_inv E sch (tabs (snd (isUserValid db u k w))) \<and>
    server_inv E sch (tabs (snd (isUserAdmin db u w))) \<and>
    server_inv E sch (tabs (snd (isUserModerator db u i w))) \<and>
    server_inv E sch (tabs (snd (isUserBanned db u ip w))) \<and>
    server_inv E sch (tabs (snd (isIPBanned db ip w))) \<and>
    server_inv E sch (tabs (snd (banUser db u n w))) \<and>
    server_inv E sch (tabs (snd (createUser db u k a w))) \<and>
    server_inv E sch (tabs (snd (createChannel db u i j a w))) \<and>
    server_inv E sch (tabs (snd (createCommunity db u i a w))) \<and>
    server_inv E sch (tabs (snd (getCommunityRowset db w))) \<and>
    server_inv E sch (tabs (snd (getCommunityChannelsRowset db i w))) \<and>
    server_inv E sch (tabs (snd (getChannelMessages db i w))) \<and>
    server_inv E sch (tabs (snd (getChannelRow db i w)))"
  by (intro conjI db_contract.keeps_methods [OF deployment_contract [OF assms(1)], THEN keepsD, OF assms(2)])

theorem database_methods_keep_invariant_witness:
  "server_inv pg0 pg_schema (tabs (snd (createUser (pg_db pg0) ''ann'' ''pw'' 0 pg_start)))"
  using database_methods_keep_invariant [OF pg0_deployment pg_start_inv] by blast

text \<open>The handlers one by one. Every RPC handler preserves the invariant of the
  stored data, whatever the request holds and whether it succeeds, reports an error or raises.\<close>

theorem handlers_keep_invariant:
  assumes "deployment E sch db" and "server_inv E sch (tabs (world_of s))"
  shows "server_inv E sch (tabs (world_of (snd (BanUser db meta ban resp s)))) \<and>
    server_inv E sch (tabs (world_of (snd (CreateUser E db cu usr s)))) \<and>
    (\<forall>m. GenerateUser E db e1 e2 usr = Some m \<longrightarrow> server_inv E sch (tabs (world_of (snd (m s))))) \<and>
    server_inv E sch (tabs (world_of (snd (CreateWrongthinkChannel db cr ch s)))) \<and>
    server_inv E sch (tabs (world_of (snd (CreateWrongthinkCommunity db co com s)))) \<and>
    server_inv E sch (tabs (world_of (fst (snd (GetWrongthinkCommunitiesImpl E db (s, out1)))))) \<and>
    server_inv E sch (tabs (world_of (fst (snd (GetWrongthinkChannelsImpl E db i (s, out2)))))) \<and>
    server_inv E sch (tabs (world_of (fst (snd (GetWrongthinkMessagesImpl E db gm (s, out3)))))) \<and>
    server_inv E sch (tabs (world_of (snd (SendWrongthinkMessageWeb E db msg s)))) \<and>
    server_inv E sch (tabs (world_of (snd (SendWrongthinkMessageImpl E db rd s)))) \<and>
    server_inv E sch (tabs (world_of (snd (ListenWrongthinkMessagesImpl E db i s))))"
proof -
  note c = deployment_contract [OF assms(1)]
  have s: "server_inv E sch (tabs (world_of (fst (s, out))))" for out :: "'x list"
    using assms(2) by simp
  show ?thesis
    by (intro conjI allI impI db_contract.keeps_BanUser [OF c, THEN keepsD, OF assms(2)]
      db_contract.keeps_CreateUser [OF c, THEN keepsD, OF assms(2)]
      db_contract.keeps_GenerateUser [OF c, THEN keepsD, OF _ assms(2)]
      db_contract.keeps_creates [OF c, THEN keepsD, OF assms(2)]
      db_contract.keeps_reads(1) [OF c, THEN keepsD, OF s]
      db_contract.keeps_reads(2) [OF c, THEN keepsD, OF s]
      db_contract.keeps_reads(3) [OF c, THEN keepsD, OF s]
      db_contract.keeps_sends [OF c, THEN keepsD, OF assms(2)])
qed

definition resp0 :: user_response where
  "resp0 = \<lparr>u_userid = 0, u_uname = [], u_token = [], u_admin = 0\<rparr>"

theorem handlers_keep_invariant_witness:
  "server_inv pg0 pg_schema (tabs (world_of (snd (SendWrongthinkMessageWeb pg0 (pg_db pg0) empty_message server0))))"
proof -
  have "server_inv pg0 pg_schema (tabs (world_of server0))"
    by (simp add: server0_def pg_start_inv)
  from handlers_keep_invariant [OF pg0_deployment this] show ?thesis by blast
qed

section \<open>Users\<close>

text \<open>Checks on users. \<^verbatim>\<open>isUserValid\<close> and \<^verbatim>\<open>isUserAdmin\<close>
  answer exactly what the directory of stored users says, and change no data.\<close>

theorem user_checks_follow_directory:
  assumes "deployment E sch db" and "server_inv E sch (tabs w)" and "session_up E (sessions w)"
  shows "\<exists>w'. isUserValid db u k w = (Inr (valid_credentials (directory (tabs w)) u k), w') \<and>
      isUserAdmin db u w = (Inr (is_admin (directory (tabs w)) u), w') \<and> tabs w' = tabs w"
  using backend.isUserValid_run [OF deployment_backend [OF assms(1)] assms(2,3)]
    backend.isUserAdmin_run [OF deployment_backend [OF assms(1)] assms(2,3)]
  by (simp add: deployment_methods [OF assms(1)])

theorem user_checks_follow_directory_witness:
  "\<exists>w'. isUserValid (pg_db pg0) ''ann'' ''pw'' pg_start = (Inr False, w')"
proof -
  have "\<not> valid_credentials (directory (tabs pg_start)) ''ann'' ''pw''"
    by (simp add: valid_credentials_def directory_def stored_def pg_start_def created_def)
  then show ?thesis
    using user_checks_follow_directory [OF pg0_deployment pg_start_inv, of "''ann''" "''pw''"] by auto
qed

text \<open>C8 (registering a user). For a new name, \<^verbatim>\<open>createUser\<close> adds exactly this user
  to the directory, under a user id that no other user has, and returns the id and the
  administrator flag it stored: the requested one, or 1 when no administrator existed.\<close>

theorem createUser_registers:
  assumes dep: "deployment E sch db" and inv: "server_inv E sch (tabs w)"
    and up: "session_up E (sessions w)" and tb: "tabs w Users = Some tb" and id: "int32 (next_id tb 0)"
    and u: "utf8_length u \<le> 50" "utf8_length k \<le> 50" and a: "a = 0 \<or> a = 1"
    and new: "directory (tabs w) u = None"
  shows "\<exists>uid w'. createUser db u k a w = (Inr (uid, if has_admin (directory (tabs w)) then a else 1), w') \<and>
     directory (tabs w') = (directory (tabs w))(u \<mapsto> (uid, k, has_admin (directory (tabs w)) \<longrightarrow> a = 1)) \<and>
     (\<forall>v i t b. directory (tabs w) v = Some (i, t, b) \<longrightarrow> i \<noteq> uid) \<and>
     (\<forall>t. t \<noteq> Users \<longrightarrow> tabs w' t = tabs w t)"
proof -
  note b = deployment_backend [OF dep]
  have fresh: "i \<noteq> next_id tb 0" if "directory (tabs w) v = Some (i, t, adm)" for v i t adm
  proof
    assume i: "i = next_id tb 0"
    from that obtain x where "[IntV i, TextV v, TextV t, x] \<in> set (stored (tabs w) Users)"
      by (auto simp: backend.directory_Some [OF b inv])
    then have "IntV i \<in> set (column_values tb 0)"
      using tb by (force simp: column_values_def stored_def)
    moreover have "0 < length (sch Users)" "auto_col (sch Users ! 0)"
      using dep by (auto simp: deployment_def auto_col_def plain_def)
    ultimately show False using backend.next_id_fresh [OF b inv tb] i by blast
  qed
  show ?thesis
    using backend.createUser_run [OF b inv up tb u a] new id fresh
      backend.directory_with_row [OF b new tb]
    by (auto simp: deployment_methods [OF dep] simp del: fun_upd_apply) (simp_all add: fun_upd_apply)
qed

theorem createUser_registers_witness:
  "\<exists>uid w'. createUser (pg_db pg0) ''ann'' ''pw'' 0 pg_start = (Inr (uid, 1), w') \<and>
     directory (tabs w') ''ann'' = Some (uid, ''pw'', True)"
proof -
  have tb: "tabs pg_start Users = Some \<lparr>cols = pg_schema Users, rows = [], seqno = 0\<rparr>"
    by (simp add: pg_start_def created_def)
  have dir: "directory (tabs pg_start) u = None" for u
    by (simp add: directory_def stored_def tb)
  have "\<not> has_admin (directory (tabs pg_start))"
    by (simp add: has_admin_def is_admin_def dir)
  then show ?thesis
    using createUser_registers [OF pg0_deployment pg_start_inv _ tb _ _ _ _ dir, of "''ann''" "''pw''" 0]
    by (auto simp: next_id_def plain_def int32_def utf8_length_def pg_start_def)
qed

text \<open>Duplicate names. Registering a name that is taken raises a unique violation; the
  directory stays as it was, so nobody can take over an account or its token.\<close>

theorem createUser_rejects_duplicate:
  assumes dep: "deployment E sch db" and inv: "server_inv E sch (tabs w)"
    and up: "session_up E (sessions w)" and tb: "tabs w Users = Some tb" and id: "int32 (next_id tb 0)"
    and u: "utf8_length u \<le> 50" "utf8_length k \<le> 50" and a: "a = 0 \<or> a = 1"
    and old: "directory (tabs w) u \<noteq> None"
  shows "\<exists>w'. createUser db u k a w = (Inl UniqueViolation, w') \<and> directory (tabs w') = directory (tabs w)"
  using backend.createUser_run [OF deployment_backend [OF dep] inv up tb u a] id old
    backend.directory_bump [OF deployment_backend [OF dep], of "tabs w", OF tb]
  by (auto simp: deployment_methods [OF dep] simp del: fun_upd_apply)

theorem createUser_rejects_duplicate_witness:
  "\<exists>w'. createUser (pg_db pg0) ''ann'' ''other'' 0 ann_world = (Inl UniqueViolation, w') \<and>
     directory (tabs w') = directory (tabs ann_world)"
  by (rule createUser_rejects_duplicate [OF pg0_deployment ann_inv _ ann_users])
     (simp_all add: next_id_def plain_def int32_def utf8_length_def ann_directory)

text \<open>Moderators. \<^verbatim>\<open>isUserModerator\<close> never answers: its statement names
  columns that no table has, so every call raises, on both back ends and for any user.\<close>

theorem isUserModerator_always_raises:
  assumes "deployment E sch db" and "server_inv E sch (tabs w)"
  shows "\<exists>e w'. isUserModerator db u i w = (Inl e, w') \<and> (session_up E (sessions w) \<longrightarrow> e = UndefinedColumn)"
proof -
  note b = deployment_backend [OF assms(1)]
  have "select_join E Channels Users (QCol Channels ''admin_id'') (QCol Users (''user_id'' @ ''where''))
      cs (tabs w) = Inl UndefinedColumn" for cs
    using backend.base_eq [OF b backend.server_inv_installed [OF b assms(2)]]
    by (simp add: select_join_def inner_join_def Let_def resolve_def header_simps)
  then show ?thesis
    by (cases "session_up E (sessions w)")
       (simp_all add: deployment_methods [OF assms(1)] pg_isUserModerator_def bind_io_def session_ok
         session_fails query_def)
qed

theorem isUserModerator_always_raises_witness:
  "\<exists>w'. isUserModerator (pg_db pg0) ''ann'' 1 ann_world = (Inl UndefinedColumn, w')"
  using isUserModerator_always_raises [OF pg0_deployment ann_inv, of "''ann''" 1] by auto

section \<open>Bans\<close>

text \<open>Length of a ban. The \<^verbatim>\<open>int\<close> arithmetic of \<^verbatim>\<open>banUser\<close> is
  exact for at most 24 days in either direction and undefined behaviour beyond; its result is the
  number of milliseconds, although it is added to a time in seconds.\<close>

theorem ban_span_exact:
  "ban_span days = (if \<bar>days\<bar> \<le> 24 then Inr (days * 86400000) else Inl Undefined)"
  by (rule ban_span_eq)

text \<open>C22 (banning). When an administrator bans a known user for at most 24 days, and the column
  accepts the expiry time, the request is answered with \<^verbatim>\<open>OK\<close>, the user's entry in
  the bans is set to that time, every other ban and every other table stays as it was, and no user
  has two entries.\<close>

theorem BanUser_records_ban:
  assumes dep: "deployment E sch db" and inv: "server_inv E sch (tabs (world_of s))"
    and one: "single_bans (tabs (world_of s))"
    and up: "\<And>i. session_up E i" and auth: "authorised (directory (tabs (world_of s))) meta"
    and u: "directory (tabs (world_of s)) (ban_uname request) = Some (uid, k, a)" and id: "int32 uid"
    and days: "\<bar>ban_days request\<bar> \<le> 24"
    and expiry: "expiry = clock E (ticks (world_of s) + 4) + ban_days request * 86400000"
    and accepts: "coerce E (ctype (sch BannedUsers ! 2)) (IntV expiry) = Some (IntV expiry)"
    and tb: "tabs (world_of s) BannedUsers = Some tb" and eid: "int32 (next_id tb 0)"
  shows "\<exists>s'. BanUser db meta request response s = (Inr (status_ok, ''test''), s') \<and>
     bans (tabs (world_of s')) = (bans (tabs (world_of s)))(uid \<mapsto> IntV expiry) \<and>
     single_bans (tabs (world_of s')) \<and> channelMap s' = channelMap s \<and>
     (\<forall>t. t \<noteq> BannedUsers \<longrightarrow> tabs (world_of s') t = tabs (world_of s) t)"
proof -
  note b = deployment_backend [OF dep]
  let ?w = "(world_of s)\<lparr>sessions := sessions (world_of s) + 2, ticks := ticks (world_of s) + 2\<rparr>"
  have span: "ban_span (ban_days request) = Inr (ban_days request * 86400000)"
    using days by (simp add: ban_span_eq)
  obtain w' where w': "pg_banUser E (ban_uname request) (ban_days request) ?w = (Inr (), w')"
    "bans (tabs w') = (bans (tabs ?w))(uid \<mapsto> IntV (clock E (ticks ?w + 2) + ban_days request * 86400000))"
    "single_bans (tabs w') = single_bans (tabs ?w)" "\<forall>t. t \<noteq> BannedUsers \<longrightarrow> tabs w' t = tabs ?w t"
    by (rule backend.banUser_run [OF b, of ?w, OF _ up _ id span])
       (use inv u accepts tb eid in \<open>auto simp: expiry numeral_eq_Suc\<close>)
  have "BanUser db meta request response s = (Inr (status_ok, ''test''), s\<lparr>world_of := w'\<rparr>)"
    using db_contract.BanUser_runs [OF deployment_contract [OF dep] inv auth up up, of request "Inr ()" w' response] w'(1)
    by (simp add: deployment_methods [OF dep])
  with w'(2-4) one show ?thesis by (simp add: expiry numeral_eq_Suc)
qed

definition ann_meta :: metadata where
  "ann_meta = addCredentials [] ''ann'' ''pw''"

lemma ann_authorised: "authorised (directory (tabs ann_world)) ann_meta"
  by (auto simp: authorised_def ann_meta_def ann_directory valid_credentials_def is_admin_def
      addCredentials_def hasCredentials_def getCredentials_def mm_count_def mm_find_def
      AUTH_UNAME_KEY_def AUTH_TOKEN_KEY_def)

theorem BanUser_records_ban_witness:
  "\<exists>s'. BanUser (pg_db pg0) ann_meta \<lparr>ban_uname = ''ann'', ban_days = 3\<rparr> [] ann_server =
      (Inr (status_ok, ''test''), s') \<and> bans (tabs (world_of s')) 1 = Some (IntV 1859200014)"
proof -
  have tb: "tabs ann_world BannedUsers = Some \<lparr>cols = pg_schema BannedUsers, rows = [], seqno = 0\<rparr>"
    by (simp add: ann_world_def pg_start_def created_def)
  have one: "single_bans (tabs ann_world)"
    by (simp add: single_bans_def stored_def tb)
  show ?thesis
    using BanUser_records_ban [OF pg0_deployment, of ann_server ann_meta
        "\<lparr>ban_uname = ''ann'', ban_days = 3\<rparr>" 1 "''pw''" True 1859200014 _ "[]"]
    by (fastforce simp: ann_server_def ann_inv one ann_authorised ann_directory tb int32_def
        next_id_def plain_def)
qed

text \<open>C7 (authorisation). A ban request whose metadata do not carry the valid credentials of an
  administrator is refused, with \<^verbatim>\<open>UNAUTHENTICATED\<close> or, when the database cannot
  be asked, \<^verbatim>\<open>INTERNAL\<close>; no table and no live channel changes, and the response
  is not filled in.\<close>

theorem BanUser_requires_admin:
  assumes "deployment E sch db" and "server_inv E sch (tabs (world_of s))"
    and "\<not> authorised (directory (tabs (world_of s))) meta"
  shows "\<exists>c why s'. BanUser db meta request response s = (Inr (Status c why, response), s') \<and>
     c \<in> {UNAUTHENTICATED, INTERNAL} \<and> same_data s' s"
  using db_contract.BanUser_rejects [OF deployment_contract [OF assms(1)] assms(2,3)] by blast

theorem BanUser_requires_admin_witness:
  "\<exists>c why s'. BanUser (pg_db pg0) [] \<lparr>ban_uname = ''ann'', ban_days = 3\<rparr> [] ann_server =
     (Inr (Status c why, []), s') \<and> c \<in> {UNAUTHENTICATED, INTERNAL} \<and> same_data s' ann_server"
  by (rule BanUser_requires_admin [OF pg0_deployment])
     (simp_all add: ann_server_def ann_inv authorised_def hasCredentials_def mm_count_def)

text \<open>C37 (overlong bans). A ban of an administrator for 25 days or more makes
  \<^verbatim>\<open>banUser\<close> overflow, which is undefined behaviour: the handler's
  \<^verbatim>\<open>catch\<close> block does not help.\<close>

theorem BanUser_overflows:
  assumes dep: "deployment E sch db" and inv: "server_inv E sch (tabs (world_of s))"
    and up: "\<And>i. session_up E i" and auth: "authorised (directory (tabs (world_of s))) meta"
    and days: "25 \<le> ban_days request"
  shows "\<exists>s'. BanUser db meta request response s = (Inl Undefined, s')"
proof -
  note c = deployment_contract [OF dep]
  let ?s1 = "s\<lparr>world_of := (world_of s)\<lparr>sessions := Suc (sessions (world_of s)), ticks := Suc (ticks (world_of s))\<rparr>\<rparr>"
  obtain u k where cr: "hasCredentials meta" "getCredentials meta = Inr (u, k)"
      "valid_credentials (directory (tabs (world_of s))) u k" "is_admin (directory (tabs (world_of s))) u"
    using auth by (auto simp: authorised_def split: sum.splits)
  have inv1: "server_inv E sch (tabs (world_of ?s1))" using inv by simp
  show ?thesis
    using cr days up
    by (simp add: BanUser_def try_catch_def bind_io_def [of "lift_sum _"] bind_io_def [of "on_db _"]
        db_contract.on_db_valid [OF c inv] db_contract.on_db_admin [OF c inv1])
       (simp add: on_db_def deployment_methods [OF dep] pg_banUser_def bind_io_def session_ok ban_span_eq)
qed

theorem BanUser_overflows_witness:
  "\<exists>s'. BanUser (pg_db pg0) ann_meta \<lparr>ban_uname = ''bob'', ban_days = 30\<rparr> [] ann_server = (Inl Undefined, s')"
  by (rule BanUser_overflows [OF pg0_deployment])
     (simp_all add: ann_server_def ann_inv ann_authorised)

text \<open>C38 (bans of a week). On PostgreSQL, at any time since September 2020, a first ban for 7 to 24
  days is not recorded: the expiry, 1000 times too far away, does not fit the integer column, and
  the statement fails.\<close>

theorem postgres_rejects_week:
  fixes clk up mk nul name
  defines "E \<equiv> postgres_env clk up mk nul name"
  assumes inv: "server_inv E pg_schema (tabs w)" and up: "session_up E (sessions w)"
    and now: "1600000000 \<le> clock E (ticks w + 2)" and days: "7 \<le> days" "days \<le> 24"
    and u: "directory (tabs w) u = Some (uid, k, a)" and new: "bans (tabs w) uid = None"
  shows "\<exists>w'. banUser (pg_db E) u days w = (Inl InvalidValue, w') \<and> tabs w' = tabs w"
proof -
  note b = postgres.backend_axioms [of clk up mk nul name, folded E_def]
  note methods = deployment_methods [OF deployment_postgres [of clk up mk nul name, folded E_def]]
  obtain R where R: "select_from E Users [(Col ''uname'', TextV u)] (tabs w) = Inr R" "got_data R"
      "into_int E R ''user_id'' 0 = Inr uid"
    by (rule backend.read_uid [OF b inv u])
  have sel: "select_from E BannedUsers [(Col ''user_id'', IntV uid)] (tabs w) = Inr (header_of BannedUsers, [])"
    using backend.select_from_eq [OF b backend.server_inv_installed [OF b inv] backend.resolve_bans [OF b]]
      backend.ban_rows [OF b inv, of uid] new
    by (simp add: E_def)
  obtain tb where tb: "tabs w BannedUsers = Some tb" "cols tb = pg_schema BannedUsers"
    by (rule backend.stored_table [OF b inv])
  let ?e = "clock E (Suc (Suc (ticks w))) + days * 86400000"
  have "\<not> int32 ?e" using now days by (simp add: int32_def numeral_eq_Suc)
  then have "assign_all E (clock E (Suc (Suc (ticks w)))) (cols tb)
      [(''user_id'', Val (IntV uid)), (''expire'', NowPlus (days * 86400000))] = Inl InvalidValue"
    by (simp add: tb find_column_def plain_def E_def numeral_eq_Suc)
  then have "insert_into E BannedUsers [(''user_id'', Val (IntV uid)), (''expire'', NowPlus (days * 86400000))]
      (clock E (Suc (Suc (ticks w)))) (tabs w) = (Inl InvalidValue, tabs w)"
    by (simp add: insert_into_def tb)
  then show ?thesis
    using R sel days
    by (simp add: methods pg_banUser_def bind_io_def session_ok [OF up] query_def ban_span_eq exec_def got_data_def)
qed

theorem postgres_rejects_week_witness:
  "\<exists>w'. banUser (pg_db pg0) ''ann'' 7 ann_world = (Inl InvalidValue, w') \<and> tabs w' = tabs ann_world"
proof -
  have "bans (tabs ann_world) 1 = None"
    by (simp add: bans_def stored_def ann_world_def pg_start_def created_def)
  then show ?thesis
    unfolding pg0_def
    by (intro postgres_rejects_week [of _ _ _ _ _ _ _ _ 1 "''pw''" True])
       (use ann_inv in \<open>simp_all add: pg0_def [symmetric] ann_directory\<close>)
qed





section \<open>Credentials\<close>

text \<open>C35 (credentials travel). The metadata that the client plugin attaches to a call without
  credentials are recognised by the server, which reads back the same name and token; the server's
  metadata processor consumes exactly the entries it is given.\<close>

theorem credentials_roundtrip:
  assumes "mm_count m AUTH_UNAME_KEY = 0" and "mm_count m AUTH_TOKEN_KEY = 0"
  shows "hasCredentials (GetMetadata p m) \<and>
    getCredentials (GetMetadata p m) = Inr (plugin_uname p, plugin_token p) \<and>
    mset (snd (process_entries (GetMetadata p m) ([], []))) = mset (GetMetadata p m)"
  using assms keys_differ
  by (simp add: GetMetadata_def hasCredentials_def getCredentials_def mm_count_insert
      mm_find_insert_other mm_find_insert_new process_entries_consumed)

theorem credentials_roundtrip_witness:
  "getCredentials (GetMetadata \<lparr>plugin_uname = ''ann'', plugin_token = ''pw''\<rparr> [(''k'', ''v'')]) = Inr (''ann'', ''pw'')"
  using credentials_roundtrip [of "[(''k'', ''v'')]" "\<lparr>plugin_uname = ''ann'', plugin_token = ''pw''\<rparr>"]
  by (simp add: mm_count_def AUTH_UNAME_KEY_def AUTH_TOKEN_KEY_def)

text \<open>No bad dereference. \<^verbatim>\<open>getCredentials\<close> dereferences its iterators without
  a test; it is defined exactly on the metadata that \<^verbatim>\<open>hasCredentials\<close> accepts, which
  is tested before.\<close>

theorem getCredentials_guarded:
  "hasCredentials m \<longleftrightarrow> (\<exists>u k. getCredentials m = Inr (u, k))"
  using mm_find_Some_iff [of m AUTH_UNAME_KEY] mm_find_Some_iff [of m AUTH_TOKEN_KEY]
  by (auto simp: hasCredentials_def getCredentials_def split: if_splits option.splits)

section \<open>Generated users\<close>

text \<open>C36 (generated identifiers). The loop that strips the dashes of a random UUID ends, and its
  result is always 32 lower-case hexadecimal digits, which fit the \<^verbatim>\<open>varchar(50)\<close>
  columns of the table of users.\<close>

theorem generated_identifier_shape:
  assumes "length bs = 16"
  shows "\<exists>d. fresh_id (Inr bs) = Some (Inr d) \<and> length d = 32 \<and> list_all is_hex d \<and> utf8_length d \<le> 50"
  using random_digits_shape [OF assms] fresh_id_random [OF assms] random_digits_fit [OF assms] by auto

theorem generated_identifier_shape_witness:
  "\<exists>d. fresh_id (Inr (replicate 16 0)) = Some (Inr d) \<and> length d = 32"
  using generated_identifier_shape [of "replicate 16 0"] by auto

text \<open>Random UUIDs. Every generated UUID is of the RFC 4122 variant and of the random-number
  version, whatever the entropy; all other bits are those of the entropy source.\<close>

theorem random_uuid_is_version_4:
  assumes "length bs = 16" and "random_generator (Inr bs) = Inr u"
  shows "valid_uuid u \<and> variant u = variant_rfc_4122 \<and> version u = version_random_number_based \<and>
     (\<forall>i. i \<noteq> 6 \<longrightarrow> i \<noteq> 8 \<longrightarrow> data u ! i = bs ! i)"
proof -
  have u: "u = set_uuid_random_vv (Uuid bs)" using assms(2) by (simp add: random_generator_def)
  have "version u = version_random_number_based"
    by (simp add: u version_def Let_def random_vv_nth [OF assms(1)] version_bits)
  moreover have "variant u = variant_rfc_4122"
    by (simp add: u variant_def Let_def random_vv_nth [OF assms(1)] variant_bits)
  ultimately show ?thesis
    by (simp add: u valid_uuid_def random_vv_nth [OF assms(1)])
qed

theorem random_uuid_is_version_4_witness:
  "\<exists>u. random_generator (Inr (replicate 16 255)) = Inr u \<and> version u = version_random_number_based"
  using random_uuid_is_version_4 [of "replicate 16 255" "set_uuid_random_vv (Uuid (replicate 16 255))"]
  by (simp add: random_generator_def)

text \<open>Distinct identifiers. Two generated names are equal only if the UUIDs are: the text form
  and the removal of the dashes lose nothing.\<close>

theorem generated_identifier_injective:
  assumes "length bs = 16" and "length cs = 16" and "fresh_id (Inr bs) = fresh_id (Inr cs)"
  shows "random_generator (Inr bs) = random_generator (Inr cs)"
proof -
  have "random_digits bs = random_digits cs"
    using assms(3) by (simp add: fresh_id_random assms(1,2))
  then have "data (set_uuid_random_vv (Uuid bs)) = data (set_uuid_random_vv (Uuid cs))"
    by (simp add: random_digits_def hex_digits_inject)
  then show ?thesis by (simp add: random_generator_def uuid.expand)
qed

theorem generated_identifier_injective_witness:
  "random_generator (Inr (replicate 16 0)) = random_generator (Inr ((replicate 16 0)[8 := 64]))"
  by (rule generated_identifier_injective) (simp_all, code_simp)

text \<open>C23 (GenerateUser). The handler returns for any entropy. On a sound database with room for
  another key, when the first name is new, it answers \<^verbatim>\<open>OK\<close> with a name and a token
  of 32 hexadecimal digits that are valid credentials from then on; the user is an administrator
  exactly when there was none.\<close>

theorem GenerateUser_yields_credentials:
  assumes dep: "deployment E sch db" and inv: "server_inv E sch (tabs (world_of s))"
    and up: "session_up E (sessions (world_of s))" and tb: "tabs (world_of s) Users = Some tb"
    and id: "int32 (next_id tb 0)" and bs: "length bs = 16" "length cs = 16"
    and new: "directory (tabs (world_of s)) (random_digits bs) = None"
  shows "\<exists>m r s'. GenerateUser E db (Inr bs) (Inr cs) resp = Some m \<and> m s = (Inr (status_ok, r), s') \<and>
     u_uname r = random_digits bs \<and> u_token r = random_digits cs \<and>
     valid_credentials (directory (tabs (world_of s'))) (u_uname r) (u_token r) \<and>
     (is_admin (directory (tabs (world_of s'))) (u_uname r) \<longleftrightarrow> \<not> has_admin (directory (tabs (world_of s)))) \<and>
     (u_admin r = 1 \<longleftrightarrow> \<not> has_admin (directory (tabs (world_of s)))) \<and>
     channelMap s' = channelMap s"
proof -
  note b = deployment_backend [OF dep]
  let ?w = "world_of s" and ?u = "random_digits bs" and ?k = "random_digits cs"
  let ?adm = "has_admin (directory (tabs ?w))"
  let ?a = "if ?adm then 0 else 1 :: int"
  obtain w' where w': "pg_createUser E ?u ?k 0 ?w = (Inr (next_id tb 0, ?a), w')"
      "tabs w' = (tabs ?w)(Users \<mapsto> with_row tb [IntV (next_id tb 0), TextV ?u, TextV ?k, IntV ?a])"
    using backend.createUser_run [OF b inv up tb random_digits_fit [OF bs(1)] random_digits_fit [OF bs(2)], of 0] id new
    by (auto simp del: fun_upd_apply)
  have dir: "directory (tabs w') = (directory (tabs ?w))(?u \<mapsto> (next_id tb 0, ?k, ?a = 1))"
    unfolding w'(2) by (rule backend.directory_with_row [OF b new tb])
  have flag: "pb_flag E ?a = ?a"
    using b by (simp add: backend_def sql_engine.pb_flag_01)
  have "on_db (createUser db ?u ?k 0) s = (Inr (next_id tb 0, ?a), s\<lparr>world_of := w'\<rparr>)"
    using w'(1) by (simp add: on_db_def deployment_methods [OF dep])
  then show ?thesis
    by (simp add: GenerateUser_def Let_def fresh_id_random bs try_catch_def bind_io_def flag dir
        valid_credentials_def is_admin_def)
qed

theorem GenerateUser_yields_credentials_witness:
  "\<exists>m r s'. GenerateUser pg0 (pg_db pg0) (Inr (replicate 16 1)) (Inr (replicate 16 2)) resp0 = Some m \<and>
     m server0 = (Inr (status_ok, r), s') \<and> u_admin r = 1"
proof -
  have no: "\<not> has_admin (directory (tabs pg_start))"
    by (simp add: has_admin_def is_admin_def pg_start_directory)
  show ?thesis
    using GenerateUser_yields_credentials [OF pg0_deployment, of server0 _ "replicate 16 1" "replicate 16 2" resp0]
    by (fastforce simp: server0_def pg_start_inv pg_start_users pg_start_directory no next_id_def plain_def int32_def)
qed

section \<open>Channels\<close>

lemma resolve_channel_join:
  "resolve (header_of Channels @ header_of Users) (QCol Channels ''admin'') = Inr 3"
  "resolve (header_of Channels @ header_of Users) (QCol Users ''user_id'') = Inr 5"
  "resolve_all (header_of Channels @ header_of Users) [(Col ''community'', x)] = Inr [(2, x)]"
  "resolve (header_of Channels @ header_of Users) (QCol Channels ''channel_id'') = Inr 0"
  by (simp_all add: header_simps resolve_def numeral_eq_Suc)

text \<open>The rows that \<^verbatim>\<open>getCommunityChannelsRowset\<close> delivers on sound data carry
  the community in their third column.\<close>

lemma community_rows:
  assumes dep: "deployment E sch db" and inv: "server_inv E sch (tabs w)"
    and run: "getCommunityChannelsRowset db com w = (Inr (h, rs), w')" and r: "r \<in> set rs"
  shows "r ! 2 = IntV com"
proof -
  note b = deployment_backend [OF dep]
  from run obtain R where R: "select_join E Channels Users (QCol Channels ''admin'') (QCol Users ''user_id'')
        [(Col ''community'', IntV com)] (tabs w) = Inr R"
      "order_by (QCol Channels ''channel_id'') R = Inr (h, rs)"
    by (auto simp: deployment_methods [OF dep] pg_getCommunityChannelsRowset_def query_def bind_sum_Inr_iff)
  have "set rs = set (snd R)"
    using R(2) by (auto simp: order_by_def split: sum.splits)
  with r R(1) backend.select_join_eq [OF b backend.server_inv_installed [OF b inv] resolve_channel_join(1-3)]
  show ?thesis by (auto simp: backend.set_scan [OF b] row_satisfies_def sql_eq_def)
qed

text \<open>The anonymous flag. Every channel that \<^verbatim>\<open>GetWrongthinkChannels\<close>
  writes has the requested community's id, not the stored permission, as its
  \<^verbatim>\<open>anonymous\<close> flag: the handler reads the third column, which is the community;
  the permission \<^verbatim>\<open>allow_anon\<close> is the fifth and is never read.\<close>

theorem channels_report_community_as_anonymous:
  assumes dep: "deployment E sch db" and inv: "server_inv E sch (tabs (world_of s))"
  shows "list_all (\<lambda>c. ch_anonymous c = pb_flag E com \<and> ch_communityid c = com)
     (snd (snd (GetWrongthinkChannelsImpl E db com (s, []))))"
proof -
  note b = deployment_backend [OF dep] and c = deployment_contract [OF dep]
  let ?Q = "\<lambda>c. ch_anonymous c = pb_flag E com \<and> ch_communityid c = com"
  let ?row = "\<lambda>row. bind_io (lift_sum (row_int E row 0)) (\<lambda>i.
         bind_io (lift_sum (row_string E row 1)) (\<lambda>n.
         bind_io (lift_sum (row_int E row 2)) (\<lambda>a.
         bind_io (lift_sum (row_string E row 6)) (\<lambda>u.
         Write (empty_channel\<lparr>ch_id := i, ch_name := n, ch_anonymous := pb_flag E a,
           ch_communityid := com, ch_unameadmin := u\<rparr>)))))"
  have row: "writes_only ?Q (?row r)" if "r ! 2 = IntV com" for r
  proof -
    have "row_int E r 2 = Inr a \<Longrightarrow> a = com" for a
      using that b by (auto simp: row_int_def backend_def sql_engine.soci_int_IntV split: if_splits)
    then show ?thesis
      by (intro writes_only_bind writes_only_pure writes_only_Write) auto
  qed
  show ?thesis
  proof (cases "session_up E (sessions (world_of s))")
    case False
    then show ?thesis
      by (simp add: GetWrongthinkChannelsImpl_def try_catch_def bind_io_def on_server_def on_db_def session_fails)
  next
    case True
    let ?s1 = "s\<lparr>world_of := (world_of s)\<lparr>sessions := Suc (sessions (world_of s))\<rparr>\<rparr>"
    have inv1: "server_inv E sch (tabs (world_of ?s1))" using inv by simp
    have ses: "on_server (on_db (getSociSession E)) (s, []) = (Inr (), (?s1, []))"
      using True by (simp add: on_server_def on_db_def session_ok)
    obtain r w' where run: "getCommunityChannelsRowset db com (world_of ?s1) = (r, w')"
      by (rule prod.exhaust)
    then have rows: "on_server (on_db (getCommunityChannelsRowset db com)) (?s1, []) =
        (r, (?s1\<lparr>world_of := w'\<rparr>, []))"
      by (simp add: on_server_def on_db_def)
    show ?thesis
    proof (cases r)
      case (Inl e)
      then show ?thesis
        by (simp add: GetWrongthinkChannelsImpl_def try_catch_def bind_io_def ses rows)
    next
      case (Inr R)
      obtain h rs where R: "R = (h, rs)" by (cases R)
      have "r ! 2 = IntV com" if "r \<in> set rs" for r
        using community_rows [OF dep inv1] run Inr R that by blast
      then have "writes_only ?Q (try_catch (bind_io (for_rows rs ?row) (\<lambda>_. ret status_ok)) (ret (Status INTERNAL [])))"
        by (intro writes_only_try writes_only_bind writes_only_rows writes_only_pure row)
      moreover have "GetWrongthinkChannelsImpl E db com (s, []) =
          try_catch (bind_io (for_rows rs ?row) (\<lambda>_. ret status_ok)) (ret (Status INTERNAL []))
            (?s1\<lparr>world_of := w'\<rparr>, [])"
        by (simp add: GetWrongthinkChannelsImpl_def try_catch_def bind_io_def ses rows Inr R)
      ultimately show ?thesis by (simp only: writes_onlyD)
    qed
  qed
qed

theorem channels_report_community_as_anonymous_witness:
  "\<exists>c1 c2. snd (snd (GetWrongthinkChannelsImpl pg0 (pg_db pg0) 1 (chan_server, []))) = [c1, c2] \<and>
     ch_anonymous c1 = 1 \<and> ch_anonymous c2 = 1"
proof -
  have "length (snd (snd (GetWrongthinkChannelsImpl pg0 (pg_db pg0) 1 (chan_server, [])))) = 2"
    by code_simp
  then obtain c1 c2 where "snd (snd (GetWrongthinkChannelsImpl pg0 (pg_db pg0) 1 (chan_server, []))) = [c1, c2]"
    by (auto simp: length_Suc_conv numeral_eq_Suc)
  with channels_report_community_as_anonymous [OF pg0_deployment chan_server_inv, of 1]
  show ?thesis by simp
qed

end
